theory Spec2Isabelle
  imports Main
begin

section \<open>Python values, strings and errors\<close>

text \<open>
  The contact manager of \<^verbatim>\<open>main.py\<close> is embedded function by function. A Python
  \<^verbatim>\<open>str\<close> is a \<^typ>\<open>string\<close>; one \<^typ>\<open>char\<close> stands for one code point in the
  range U+0000..U+00FF (Latin-1), so \<^const>\<open>length\<close> is Python's \<^verbatim>\<open>len\<close>. The dynamically
  typed values that reach a field (a phone or a birthday argument, an element of a
  loaded JSON list) are \<^verbatim>\<open>None\<close>, a string, or something else, for which an integer
  stands.
\<close>

datatype pyval = PNone | PStr string | PInt int

text \<open>
  Exceptions are values. \<^verbatim>\<open>ValueError\<close> carries its message; \<^verbatim>\<open>KeyError\<close> the key.
\<close>

datatype error = ValueError string | TypeError | KeyError string | StopIteration

subsection \<open>Character classes and case mapping\<close>

definition ascii_digit :: "char \<Rightarrow> bool" where
  "ascii_digit c = (48 \<le> (of_char c :: nat) \<and> (of_char c :: nat) \<le> 57)"

text \<open>
  \<^verbatim>\<open>str.isdigit\<close> on one character: the decimal digits and the characters of numeric
  type Digit. Below U+0100 these are 0-9 and the superscripts U+00B2, U+00B3, U+00B9.
\<close>

definition isdigit_char :: "char \<Rightarrow> bool" where
  "isdigit_char c =
     (ascii_digit c \<or> (of_char c :: nat) = 178 \<or> (of_char c :: nat) = 179
        \<or> (of_char c :: nat) = 185)"

text \<open>\<^verbatim>\<open>str.isdigit\<close>: false on the empty string, else every character is a digit.\<close>

definition isdigit :: "string \<Rightarrow> bool" where
  "isdigit s = (s \<noteq> [] \<and> list_all isdigit_char s)"

text \<open>
  \<^verbatim>\<open>str.lower\<close> on one character: A-Z, and U+00C0..U+00DE without the multiplication
  sign U+00D7, move up by 32; every other character below U+0100 is kept.
\<close>

definition lower_char :: "char \<Rightarrow> char" where
  "lower_char c =
     (let n = (of_char c :: nat) in
      if (65 \<le> n \<and> n \<le> 90) \<or> (192 \<le> n \<and> n \<le> 222 \<and> n \<noteq> 215)
      then char_of (n + 32) else c)"

definition lower :: "string \<Rightarrow> string" where
  "lower s = map lower_char s"

subsection \<open>Decimal rendering and \<^verbatim>\<open>str()\<close>\<close>

definition digit_char :: "nat \<Rightarrow> char" where
  "digit_char n = char_of (48 + n)"

function nat_digits :: "nat \<Rightarrow> string" where
  "nat_digits n =
     (if n < 10 then [digit_char n] else nat_digits (n div 10) @ [digit_char (n mod 10)])"
  by pat_completeness auto
termination
  by (relation "measure id") auto

declare nat_digits.simps [simp del]

definition int_str :: "int \<Rightarrow> string" where
  "int_str i = (if i < 0 then CHR ''-'' # nat_digits (nat (- i)) else nat_digits (nat i))"

fun py_str :: "pyval \<Rightarrow> string" where
  "py_str PNone = ''None''"
| "py_str (PStr s) = s"
| "py_str (PInt i) = int_str i"

text \<open>Truthiness, as \<^verbatim>\<open>if x\<close> tests it.\<close>

fun truthy :: "pyval \<Rightarrow> bool" where
  "truthy PNone = False"
| "truthy (PStr s) = (s \<noteq> [])"
| "truthy (PInt i) = (i \<noteq> 0)"

section \<open>Phone\<close>

text \<open>
  \<^verbatim>\<open>Phone._value\<close> is the one attribute of the object. \<^verbatim>\<open>validate_phone\<close> returns
  normally (\<^const>\<open>None\<close>) or raises.
\<close>

record Phone =
  phone_value :: pyval

definition validate_phone :: "pyval \<Rightarrow> error option" where
  "validate_phone v =
     (if v \<noteq> PNone \<and>
         (case v of PStr s \<Rightarrow> \<not> (length s = 10 \<and> isdigit s) | _ \<Rightarrow> True)
      then Some (ValueError ''Invalid phone number format'')
      else None)"

text \<open>
  The setter: validation first, the assignment only when validation returned. The
  result is the exception raised, if any, and the object as the call leaves it.
\<close>

definition Phone_set_value :: "Phone \<Rightarrow> pyval \<Rightarrow> error option \<times> Phone" where
  "Phone_set_value p new_value =
     (case validate_phone new_value of
        Some e \<Rightarrow> (Some e, p)
      | None \<Rightarrow> (None, p\<lparr>phone_value := new_value\<rparr>))"

text \<open>
  The constructor (\<^verbatim>\<open>Field.__init__\<close>): \<^verbatim>\<open>_value = None\<close>, then the setter. An
  exception leaves the caller without an object.
\<close>

definition Phone_init :: "pyval \<Rightarrow> error + Phone" where
  "Phone_init v =
     (case Phone_set_value \<lparr>phone_value = PNone\<rparr> v of
        (Some e, _) \<Rightarrow> Inl e
      | (None, p) \<Rightarrow> Inr p)"

text \<open>The phone as displayed: \<^verbatim>\<open>str(phone.value)\<close>.\<close>

definition Phone_display :: "Phone \<Rightarrow> string" where
  "Phone_display p = py_str (phone_value p)"

text \<open>The specification's format: a string of exactly ten ASCII digits.\<close>

fun ten_ascii_digits :: "pyval \<Rightarrow> bool" where
  "ten_ascii_digits (PStr s) = (length s = 10 \<and> list_all ascii_digit s)"
| "ten_ascii_digits _ = False"

fun ascii_only :: "pyval \<Rightarrow> bool" where
  "ascii_only (PStr s) = list_all (\<lambda>c. (of_char c :: nat) < 128) s"
| "ascii_only _ = True"

section \<open>Dates and times\<close>

text \<open>
  The part of Python's \<^verbatim>\<open>datetime\<close> module that the program calls: naive
  \<^verbatim>\<open>datetime\<close> objects in the proleptic Gregorian calendar, their constructor with its
  range checks, comparison, subtraction to a normalised \<^verbatim>\<open>timedelta\<close>, and
  \<^verbatim>\<open>strptime\<close>/\<^verbatim>\<open>strftime\<close> for the one format \<^verbatim>\<open>%Y-%m-%d\<close>.
\<close>

record datetime =
  year :: int
  month :: int
  day :: int
  hour :: int
  minute :: int
  second :: int
  microsecond :: int

record timedelta =
  days :: int
  seconds :: int
  microseconds :: int

definition is_leap :: "int \<Rightarrow> bool" where
  "is_leap y = (y mod 4 = 0 \<and> (y mod 100 \<noteq> 0 \<or> y mod 400 = 0))"

definition DAYS_IN_MONTH :: "int list" where
  "DAYS_IN_MONTH = [31, 28, 31, 30, 31, 30, 31, 31, 30, 31, 30, 31]"

definition days_in_month :: "int \<Rightarrow> int \<Rightarrow> int" where
  "days_in_month y m = (if m = 2 \<and> is_leap y then 29 else DAYS_IN_MONTH ! nat (m - 1))"

definition days_before_year :: "int \<Rightarrow> int" where
  "days_before_year y = (y - 1) * 365 + (y - 1) div 4 - (y - 1) div 100 + (y - 1) div 400"

definition days_before_month :: "int \<Rightarrow> int \<Rightarrow> int" where
  "days_before_month y m =
     sum_list (take (nat (m - 1)) DAYS_IN_MONTH) + (if m > 2 \<and> is_leap y then 1 else 0)"

definition ymd2ord :: "int \<Rightarrow> int \<Rightarrow> int \<Rightarrow> int" where
  "ymd2ord y m d = days_before_year y + days_before_month y m + d"

text \<open>
  \<^verbatim>\<open>datetime(year, month, day)\<close>: the time of day is midnight. The three range checks
  raise \<^verbatim>\<open>ValueError\<close>, in this order.
\<close>

definition datetime_new :: "int \<Rightarrow> int \<Rightarrow> int \<Rightarrow> error + datetime" where
  "datetime_new y m d =
     (if y < 1 \<or> 9999 < y then Inl (ValueError (''year '' @ int_str y @ '' is out of range''))
      else if m < 1 \<or> 12 < m then Inl (ValueError ''month must be in 1..12'')
      else if d < 1 \<or> days_in_month y m < d then Inl (ValueError ''day is out of range for month'')
      else Inr \<lparr>year = y, month = m, day = d, hour = 0, minute = 0, second = 0,
                 microsecond = 0\<rparr>)"

text \<open>Comparison of naive datetimes: the seven fields, lexicographically.\<close>

definition datetime_fields :: "datetime \<Rightarrow> int list" where
  "datetime_fields t = [year t, month t, day t, hour t, minute t, second t, microsecond t]"

fun lex_gt :: "int list \<Rightarrow> int list \<Rightarrow> bool" where
  "lex_gt (x # xs) (y # ys) = (x > y \<or> (x = y \<and> lex_gt xs ys))"
| "lex_gt (x # xs) [] = True"
| "lex_gt [] _ = False"

definition datetime_gt :: "datetime \<Rightarrow> datetime \<Rightarrow> bool" where
  "datetime_gt a b = lex_gt (datetime_fields a) (datetime_fields b)"

text \<open>
  \<^verbatim>\<open>timedelta(days, seconds, microseconds)\<close> normalises to \<open>0 \<le> microseconds < 10\<^sup>6\<close>
  and \<open>0 \<le> seconds < 86400\<close>; the days carry the sign (floor division).
\<close>

definition timedelta_new :: "int \<Rightarrow> int \<Rightarrow> int \<Rightarrow> timedelta" where
  "timedelta_new d s us =
     (let s1 = s + us div 1000000;
          d1 = d + s1 div 86400
      in \<lparr>days = d1, seconds = s1 mod 86400, microseconds = us mod 1000000\<rparr>)"

definition toordinal :: "datetime \<Rightarrow> int" where
  "toordinal t = ymd2ord (year t) (month t) (day t)"

definition datetime_sub :: "datetime \<Rightarrow> datetime \<Rightarrow> timedelta" where
  "datetime_sub a b =
     timedelta_new (toordinal a - toordinal b)
       ((second a + minute a * 60 + hour a * 3600) - (second b + minute b * 60 + hour b * 3600))
       (microsecond a - microsecond b)"

subsection \<open>\<^verbatim>\<open>strptime\<close> and \<^verbatim>\<open>strftime\<close> for \<^verbatim>\<open>%Y-%m-%d\<close>\<close>

text \<open>
  \<^verbatim>\<open>strptime\<close> matches the input against the regular expression built from the format,
  \<^verbatim>\<open>(\d\d\d\d)-(1[0-2]|0[1-9]|[1-9])-(3[0-1]|[1-2]\d|0[1-9]|[1-9]| [1-9])\<close>,
  from the start of the string, and then requires that nothing is left over. The
  alternatives are tried in order. No input makes the matcher come back to a later
  alternative after an earlier one matched: a two-character month is followed by
  \<^verbatim>\<open>-\<close> or the match fails for every alternative, and the day is the last group. So
  each group is a function taking the first alternative that matches.
\<close>

definition digit_val :: "char \<Rightarrow> int" where
  "digit_val c = int (of_char c) - 48"

definition digit19 :: "char \<Rightarrow> bool" where
  "digit19 c = (49 \<le> (of_char c :: nat) \<and> (of_char c :: nat) \<le> 57)"

fun match_Y :: "string \<Rightarrow> (int \<times> string) option" where
  "match_Y (a # b # c # d # rest) =
     (if ascii_digit a \<and> ascii_digit b \<and> ascii_digit c \<and> ascii_digit d
      then Some (1000 * digit_val a + 100 * digit_val b + 10 * digit_val c + digit_val d, rest)
      else None)"
| "match_Y _ = None"

fun match_lit :: "char \<Rightarrow> string \<Rightarrow> string option" where
  "match_lit c (x # rest) = (if x = c then Some rest else None)"
| "match_lit c [] = None"

fun match_m :: "string \<Rightarrow> (int \<times> string) option" where
  "match_m (a # b # rest) =
     (if a = CHR ''1'' \<and> (b = CHR ''0'' \<or> b = CHR ''1'' \<or> b = CHR ''2'')
        then Some (10 + digit_val b, rest)
      else if a = CHR ''0'' \<and> digit19 b then Some (digit_val b, rest)
      else if digit19 a then Some (digit_val a, b # rest)
      else None)"
| "match_m [a] = (if digit19 a then Some (digit_val a, []) else None)"
| "match_m [] = None"

fun match_d :: "string \<Rightarrow> (int \<times> string) option" where
  "match_d (a # b # rest) =
     (if a = CHR ''3'' \<and> (b = CHR ''0'' \<or> b = CHR ''1'') then Some (30 + digit_val b, rest)
      else if (a = CHR ''1'' \<or> a = CHR ''2'') \<and> ascii_digit b
        then Some (10 * digit_val a + digit_val b, rest)
      else if a = CHR ''0'' \<and> digit19 b then Some (digit_val b, rest)
      else if digit19 a then Some (digit_val a, b # rest)
      else if a = CHR '' '' \<and> digit19 b then Some (digit_val b, rest)
      else None)"
| "match_d [a] = (if digit19 a then Some (digit_val a, []) else None)"
| "match_d [] = None"

text \<open>
  The three groups of a matching string, and what is left after the match.
\<close>

definition match_ymd :: "string \<Rightarrow> ((int \<times> int \<times> int) \<times> string) option" where
  "match_ymd s =
     (case match_Y s of None \<Rightarrow> None | Some (y, s1) \<Rightarrow>
      case match_lit CHR ''-'' s1 of None \<Rightarrow> None | Some s2 \<Rightarrow>
      case match_m s2 of None \<Rightarrow> None | Some (m, s3) \<Rightarrow>
      case match_lit CHR ''-'' s3 of None \<Rightarrow> None | Some s4 \<Rightarrow>
      case match_d s4 of None \<Rightarrow> None | Some (d, s5) \<Rightarrow> Some ((y, m, d), s5))"

text \<open>
  \<^verbatim>\<open>datetime.strptime(v, '%Y-%m-%d')\<close>. A value that is not a string is a
  \<^verbatim>\<open>TypeError\<close>; every other failure is a \<^verbatim>\<open>ValueError\<close>. The messages of the
  two parse failures are rendered without the quoting of \<^verbatim>\<open>repr\<close>; the program
  catches them and never shows them.
\<close>

definition strptime :: "pyval \<Rightarrow> error + datetime" where
  "strptime v =
     (case v of
        PStr s \<Rightarrow>
          (case match_ymd s of
             None \<Rightarrow> Inl (ValueError (''time data '' @ s @ '' does not match format %Y-%m-%d''))
           | Some ((y, m, d), rest) \<Rightarrow>
               if rest \<noteq> [] then Inl (ValueError (''unconverted data remains: '' @ rest))
               else datetime_new y m d)
      | _ \<Rightarrow> Inl TypeError)"

text \<open>
  \<^verbatim>\<open>strftime('%Y-%m-%d')\<close>, as CPython gives it with the C library of Linux: the
  year in decimal with no padding (the year 999 is \<^verbatim>\<open>999\<close>), month and day padded
  with a zero to two digits.
\<close>

definition zfill :: "nat \<Rightarrow> string \<Rightarrow> string" where
  "zfill w s = replicate (w - length s) CHR ''0'' @ s"

definition strftime :: "datetime \<Rightarrow> string" where
  "strftime t =
     nat_digits (nat (year t)) @ ''-'' @ zfill 2 (nat_digits (nat (month t)))
       @ ''-'' @ zfill 2 (nat_digits (nat (day t)))"

section \<open>Birthday\<close>

record Birthday =
  birthday_value :: datetime

text \<open>
  \<^verbatim>\<open>validate_birthday\<close> turns a \<^verbatim>\<open>ValueError\<close> of \<^verbatim>\<open>strptime\<close> into its own;
  any other exception passes through.
\<close>

definition validate_birthday :: "pyval \<Rightarrow> error option" where
  "validate_birthday v =
     (if v \<noteq> PNone then
        (case strptime v of
           Inl (ValueError _) \<Rightarrow>
             Some (ValueError ''Invalid birthday format. Please use YYYY-MM-DD'')
         | Inl e \<Rightarrow> Some e
         | Inr _ \<Rightarrow> None)
      else None)"

text \<open>
  The constructor runs the setter: validation, then a second \<^verbatim>\<open>strptime\<close> whose
  result is stored.
\<close>

definition Birthday_init :: "pyval \<Rightarrow> error + Birthday" where
  "Birthday_init v =
     (case validate_birthday v of
        Some e \<Rightarrow> Inl e
      | None \<Rightarrow>
          (case strptime v of
             Inl e \<Rightarrow> Inl e
           | Inr t \<Rightarrow> Inr \<lparr>birthday_value = t\<rparr>))"

definition Birthday_str :: "Birthday \<Rightarrow> string" where
  "Birthday_str b = strftime (birthday_value b)"

section \<open>Record\<close>

text \<open>
  A contact. \<^verbatim>\<open>Name\<close> validates nothing, so the record keeps the name itself; the
  program lowercases and compares names, so a name is a string. Objects are modelled by
  their values: a \<^verbatim>\<open>Phone\<close> in a list is its \<^verbatim>\<open>_value\<close>, a record in the book is
  its three attributes.
\<close>

record Record =
  name :: string
  birthday :: "Birthday option"
  phones :: "Phone list"

text \<open>\<^verbatim>\<open>[Phone(phone) for phone in phones]\<close>: the first exception ends the comprehension.\<close>

fun Phone_init_all :: "pyval list \<Rightarrow> error + Phone list" where
  "Phone_init_all [] = Inr []"
| "Phone_init_all (v # vs) =
     (case Phone_init v of
        Inl e \<Rightarrow> Inl e
      | Inr p \<Rightarrow> (case Phone_init_all vs of Inl e \<Rightarrow> Inl e | Inr ps \<Rightarrow> Inr (p # ps)))"

text \<open>
  \<^verbatim>\<open>Record(name, birthday, phones)\<close>. A falsy \<^verbatim>\<open>birthday\<close> (\<^verbatim>\<open>None\<close>, the empty
  string) gives no birthday; \<^verbatim>\<open>phones\<close> is \<^verbatim>\<open>None\<close> or a list, and a falsy one
  gives no phones.
\<close>

definition Record_init :: "string \<Rightarrow> pyval \<Rightarrow> pyval list option \<Rightarrow> error + Record" where
  "Record_init n b ps =
     (case (if truthy b then map_sum id Some (Birthday_init b) else Inr None) of
        Inl e \<Rightarrow> Inl e
      | Inr bd \<Rightarrow>
          (case (case ps of None \<Rightarrow> Inr [] | Some l \<Rightarrow> if l \<noteq> [] then Phone_init_all l else Inr [])
           of Inl e \<Rightarrow> Inl e
            | Inr pl \<Rightarrow> Inr \<lparr>name = n, birthday = bd, phones = pl\<rparr>))"

definition add_phone :: "Record \<Rightarrow> pyval \<Rightarrow> error option \<times> Record" where
  "add_phone self phone =
     (case Phone_init phone of
        Inl e \<Rightarrow> (Some e, self)
      | Inr p \<Rightarrow> (None, self\<lparr>phones := phones self @ [p]\<rparr>))"

text \<open>
  \<^verbatim>\<open>edit_phone\<close>: the \<^verbatim>\<open>for\<close> loop over the phones with its \<^verbatim>\<open>else\<close> branch. The
  first phone whose text is \<^verbatim>\<open>old_phone\<close> gets the new value through the setter, and
  the loop ends there, also when the setter raises.
\<close>

fun edit_phone_loop :: "Phone list \<Rightarrow> string \<Rightarrow> pyval \<Rightarrow> error option \<times> Phone list" where
  "edit_phone_loop [] old_phone new_phone =
     (Some (ValueError ''Phone number does not exist in the record''), [])"
| "edit_phone_loop (phone # rest) old_phone new_phone =
     (if py_str (phone_value phone) = old_phone
      then (case Phone_set_value phone new_phone of (e, phone') \<Rightarrow> (e, phone' # rest))
      else (case edit_phone_loop rest old_phone new_phone of (e, rest') \<Rightarrow> (e, phone # rest')))"

definition edit_phone :: "Record \<Rightarrow> string \<Rightarrow> pyval \<Rightarrow> error option \<times> Record" where
  "edit_phone self old_phone new_phone =
     (case edit_phone_loop (phones self) old_phone new_phone of
        (e, ps) \<Rightarrow> (e, self\<lparr>phones := ps\<rparr>))"

definition get_phones :: "Record \<Rightarrow> string list" where
  "get_phones self = map (\<lambda>phone. py_str (phone_value phone)) (phones self)"

text \<open>
  \<^verbatim>\<open>days_to_birthday\<close>. The second argument is what \<^verbatim>\<open>datetime.now()\<close> returns. A
  \<^verbatim>\<open>Birthday\<close> object is always truthy.
\<close>

definition days_to_birthday :: "Record \<Rightarrow> datetime \<Rightarrow> error + int option" where
  "days_to_birthday self today =
     (case birthday self of
        None \<Rightarrow> Inr None
      | Some b \<Rightarrow>
          (case datetime_new (year today) (month (birthday_value b)) (day (birthday_value b)) of
             Inl e \<Rightarrow> Inl e
           | Inr next_birthday \<Rightarrow>
               if datetime_gt today next_birthday
               then (case datetime_new (year today + 1) (month (birthday_value b))
                            (day (birthday_value b)) of
                       Inl e \<Rightarrow> Inl e
                     | Inr next_birthday' \<Rightarrow> Inr (Some (days (datetime_sub next_birthday' today))))
               else Inr (Some (days (datetime_sub next_birthday today)))))"

text \<open>\<^verbatim>\<open>sep.join(xs)\<close>.\<close>

fun join :: "string \<Rightarrow> string list \<Rightarrow> string" where
  "join sep [] = []"
| "join sep [x] = x"
| "join sep (x # y # ys) = x @ sep @ join sep (y # ys)"

text \<open>The display string, \<^verbatim>\<open>Record.__str__\<close>.\<close>

definition Record_str :: "Record \<Rightarrow> string" where
  "Record_str self =
     (let phones_str = join '', '' (map (\<lambda>phone. py_str (phone_value phone)) (phones self));
          birthday_str = (case birthday self of
                            Some b \<Rightarrow> '', birthday: '' @ Birthday_str b
                          | None \<Rightarrow> [])
      in ''Contact name: '' @ name self @ '', phones: '' @ phones_str @ birthday_str)"

text \<open>
  \<^verbatim>\<open>to_json\<close>: the dictionary that is written to the file, with its three keys.
  \<^verbatim>\<open>phones\<close> read back from a file is \<^verbatim>\<open>None\<close> (absent or \<^verbatim>\<open>null\<close>) or a list.
\<close>

record jrecord =
  jname :: string
  jbirthday :: pyval
  jphones :: "pyval list option"

definition to_json :: "Record \<Rightarrow> jrecord" where
  "to_json self =
     \<lparr>jname = name self,
      jbirthday = (case birthday self of Some b \<Rightarrow> PStr (Birthday_str b) | None \<Rightarrow> PNone),
      jphones = Some (map (\<lambda>phone. PStr (py_str (phone_value phone))) (phones self))\<rparr>"

section \<open>AddressBook\<close>

text \<open>
  The book is a \<^verbatim>\<open>UserDict\<close>: \<^verbatim>\<open>data\<close> is a Python dictionary, which keeps its keys
  in insertion order, so it is an association list with distinct keys. Assigning to a
  key that is present replaces the value where it stands; a new key goes to the end.
\<close>

record AddressBook =
  data :: "(string \<times> Record) list"
  page_size :: int
  current_page :: int

definition AddressBook_init :: AddressBook where
  "AddressBook_init = \<lparr>data = [], page_size = 5, current_page = 1\<rparr>"

fun dict_set :: "('k \<times> 'v) list \<Rightarrow> 'k \<Rightarrow> 'v \<Rightarrow> ('k \<times> 'v) list" where
  "dict_set [] k v = [(k, v)]"
| "dict_set ((k', v') # rest) k v =
     (if k' = k then (k, v) # rest else (k', v') # dict_set rest k v)"

definition dict_del :: "('k \<times> 'v) list \<Rightarrow> 'k \<Rightarrow> ('k \<times> 'v) list" where
  "dict_del d k = filter (\<lambda>kv. fst kv \<noteq> k) d"

definition values_of :: "AddressBook \<Rightarrow> Record list" where
  "values_of self = map snd (data self)"

text \<open>
  \<^verbatim>\<open>next(r for r in self.data.values() if r.name.value.lower() == n)\<close>: the position
  of the first record whose lowercased name is \<open>n\<close>. The record found is the object
  stored there, so a change to it is a change at that position.
\<close>

fun index_of :: "string \<Rightarrow> (string \<times> Record) list \<Rightarrow> nat option" where
  "index_of n [] = None"
| "index_of n (kv # rest) =
     (if lower (name (snd kv)) = n then Some 0 else map_option Suc (index_of n rest))"

definition record_at :: "AddressBook \<Rightarrow> nat \<Rightarrow> Record" where
  "record_at self i = snd (data self ! i)"

definition set_record_at :: "AddressBook \<Rightarrow> nat \<Rightarrow> Record \<Rightarrow> AddressBook" where
  "set_record_at self i r = self\<lparr>data := (data self)[i := (fst (data self ! i), r)]\<rparr>"

definition add_record :: "AddressBook \<Rightarrow> Record \<Rightarrow> AddressBook" where
  "add_record self record =
     (if lower (name record) \<in> set (map (\<lambda>existing_record. lower (name existing_record))
                                        (values_of self))
      then (case index_of (lower (name record)) (data self) of
              Some i \<Rightarrow>
                set_record_at self i
                  ((record_at self i)\<lparr>phones := phones (record_at self i) @ phones record\<rparr>)
            | None \<Rightarrow> self)
      else self\<lparr>data := dict_set (data self) (name record) record\<rparr>)"

definition find_record :: "AddressBook \<Rightarrow> string \<Rightarrow> Record option" where
  "find_record self n = map_option (record_at self) (index_of (lower n) (data self))"

text \<open>\<^verbatim>\<open>del self.data[key]\<close> raises \<^verbatim>\<open>KeyError\<close> when the key is absent.\<close>

definition delete :: "AddressBook \<Rightarrow> string \<Rightarrow> error option \<times> AddressBook" where
  "delete self n =
     (case map_option (record_at self) (index_of (lower n) (data self)) of
        None \<Rightarrow> (None, self)
      | Some record \<Rightarrow>
          if name record \<in> fst ` set (data self)
          then (None, self\<lparr>data := dict_del (data self) (name record)\<rparr>)
          else (Some (KeyError (name record)), self))"

text \<open>
  \<^verbatim>\<open>change_phone\<close> lowercases the name and hands it to \<^verbatim>\<open>find\<close>, which lowercases
  again.
\<close>

definition change_phone ::
  "AddressBook \<Rightarrow> string \<Rightarrow> string \<Rightarrow> pyval \<Rightarrow> error option \<times> AddressBook" where
  "change_phone self n old_phone new_phone =
     (case index_of (lower (lower n)) (data self) of
        Some i \<Rightarrow>
          (case edit_phone (record_at self i) old_phone new_phone of
             (e, r) \<Rightarrow> (e, set_record_at self i r))
      | None \<Rightarrow> (Some (ValueError (''Contact '' @ n @ '' not found'')), self))"

text \<open>\<^verbatim>\<open>q in s\<close> on strings: \<open>q\<close> occurs in \<open>s\<close> as a contiguous piece.\<close>

fun starts_with :: "string \<Rightarrow> string \<Rightarrow> bool" where
  "starts_with s [] = True"
| "starts_with [] (q # qs) = False"
| "starts_with (c # cs) (q # qs) = (c = q \<and> starts_with cs qs)"

fun contains :: "string \<Rightarrow> string \<Rightarrow> bool" where
  "contains [] q = (q = [])"
| "contains (c # cs) q = (starts_with (c # cs) q \<or> contains cs q)"

fun search_loop :: "string \<Rightarrow> Record list \<Rightarrow> string list \<Rightarrow> string list" where
  "search_loop query [] results = results"
| "search_loop query (record # rest) results =
     search_loop query rest
       (if contains (lower (name record)) query
           \<or> list_ex (\<lambda>phone. contains (py_str (phone_value phone)) query) (phones record)
        then results @ [Record_str record] else results)"

definition search :: "AddressBook \<Rightarrow> string \<Rightarrow> string list" where
  "search self query = search_loop (lower query) (values_of self) []"

subsection \<open>Persistence\<close>

text \<open>
  The file system maps a file name to the JSON array it holds, already parsed; a name
  that is not mapped is a file that does not exist. \<^verbatim>\<open>save_to_file\<close> writes the file;
  \<^verbatim>\<open>load_from_file\<close> builds the new dictionary first and assigns it to \<^verbatim>\<open>data\<close> last,
  so an exception on the way leaves the book as it was. A missing file only prints a
  notice.
\<close>

type_synonym files = "string \<rightharpoonup> jrecord list"

definition save_to_file :: "AddressBook \<Rightarrow> string \<Rightarrow> files \<Rightarrow> files" where
  "save_to_file self filename fs = fs(filename \<mapsto> map to_json (values_of self))"

fun build_dict :: "jrecord list \<Rightarrow> (string \<times> Record) list \<Rightarrow> error + (string \<times> Record) list" where
  "build_dict [] d = Inr d"
| "build_dict (j # js) d =
     (case Record_init (jname j) (jbirthday j) (jphones j) of
        Inl e \<Rightarrow> Inl e
      | Inr r \<Rightarrow> build_dict js (dict_set d (jname j) r))"

definition load_from_file :: "AddressBook \<Rightarrow> string \<Rightarrow> files \<Rightarrow> error option \<times> AddressBook" where
  "load_from_file self filename fs =
     (case fs filename of
        None \<Rightarrow> (None, self)
      | Some content \<Rightarrow>
          (case build_dict content [] of
             Inl e \<Rightarrow> (Some e, self)
           | Inr d \<Rightarrow> (None, self\<lparr>data := d\<rparr>)))"

subsection \<open>Pages and the first records\<close>

text \<open>
  A Python slice \<^verbatim>\<open>xs[start:stop]\<close>: a negative bound counts from the end, and both
  bounds are clamped to the list.
\<close>

definition py_slice :: "'a list \<Rightarrow> int \<Rightarrow> int \<Rightarrow> 'a list" where
  "py_slice xs start stop =
     (let n = int (length xs);
          a = (if start < 0 then max (start + n) 0 else min start n);
          b = (if stop < 0 then max (stop + n) 0 else min stop n)
      in take (nat (b - a)) (drop (nat a) xs))"

definition get_page :: "AddressBook \<Rightarrow> int \<Rightarrow> Record list" where
  "get_page self page_number =
     (let start_index = (page_number - 1) * page_size self;
          end_index = start_index + page_size self
      in py_slice (values_of self) start_index end_index)"

text \<open>
  \<^verbatim>\<open>record_iterator\<close> is a generator; a call makes a new one, which will yield the
  display strings from the first record on. \<^verbatim>\<open>next\<close> on a new generator returns its
  first item or raises \<^verbatim>\<open>StopIteration\<close>.
\<close>

definition record_iterator :: "AddressBook \<Rightarrow> string list" where
  "record_iterator self = map Record_str (values_of self)"

definition next_of_new :: "'a list \<Rightarrow> error + 'a" where
  "next_of_new gen = (case gen of [] \<Rightarrow> Inl StopIteration | x # _ \<Rightarrow> Inr x)"

text \<open>
  \<^verbatim>\<open>get_n_records\<close>: the loop over \<^verbatim>\<open>range(n)\<close>, with the rounds left to run and the
  list built so far.
\<close>

fun get_n_records_loop :: "AddressBook \<Rightarrow> nat \<Rightarrow> string list \<Rightarrow> string list" where
  "get_n_records_loop self 0 records = records"
| "get_n_records_loop self (Suc k) records =
     (case next_of_new (record_iterator self) of
        Inr record \<Rightarrow> get_n_records_loop self k (records @ [record])
      | Inl _ \<Rightarrow> records)"

definition get_n_records :: "AddressBook \<Rightarrow> int \<Rightarrow> string list" where
  "get_n_records self n = get_n_records_loop self (nat n) []"

section \<open>Notions of the specification\<close>

text \<open>
  The first \<open>n\<close> display strings of the book, as a plain slice: the specification's
  reading of \<^verbatim>\<open>get_n_records\<close>.
\<close>

definition first_n_display :: "AddressBook \<Rightarrow> int \<Rightarrow> string list" where
  "first_n_display self n = take (nat n) (map Record_str (values_of self))"

text \<open>The records at the positions \<open>[lo, hi)\<close> of the book, in order.\<close>

definition records_between :: "AddressBook \<Rightarrow> nat \<Rightarrow> nat \<Rightarrow> Record list" where
  "records_between self lo hi = map (\<lambda>i. values_of self ! i) [lo ..< hi]"

text \<open>Two contacts and a book that holds them, for concrete runs.\<close>

definition midnight :: "int \<Rightarrow> int \<Rightarrow> int \<Rightarrow> datetime" where
  "midnight y m d =
     \<lparr>year = y, month = m, day = d, hour = 0, minute = 0, second = 0, microsecond = 0\<rparr>"

definition alice :: Record where
  "alice = \<lparr>name = ''Alice'', birthday = Some \<lparr>birthday_value = midnight 1990 6 15\<rparr>,
             phones = [\<lparr>phone_value = PStr ''1234567890''\<rparr>]\<rparr>"

definition bob :: Record where
  "bob = \<lparr>name = ''Bob'', birthday = None, phones = [\<lparr>phone_value = PStr ''5552223333''\<rparr>]\<rparr>"

definition alice_and_bob :: AddressBook where
  "alice_and_bob = add_record (add_record AddressBook_init alice) bob"

section \<open>Well-formed books and runs of operations\<close>

text \<open>
  Every operation of the book stores a record under its own name, and a dictionary has
  each key once.
\<close>

definition keys_are_names :: "AddressBook \<Rightarrow> bool" where
  "keys_are_names self =
     (distinct (map fst (data self)) \<and> list_all (\<lambda>kv. fst kv = name (snd kv)) (data self))"

text \<open>At most one record per name, names compared in lower case.\<close>

definition ci_unique :: "AddressBook \<Rightarrow> bool" where
  "ci_unique self = distinct (map (\<lambda>r. lower (name r)) (values_of self))"

definition file_ci_unique :: "jrecord list \<Rightarrow> bool" where
  "file_ci_unique content = distinct (map (\<lambda>j. lower (jname j)) content)"

text \<open>
  The operations on a book and a file system. The result of a step is the state it
  leaves, whether it returned or raised.
\<close>

datatype operation =
    AddRecord Record
  | Delete string
  | ChangePhone string string pyval
  | LoadFromFile string
  | SaveToFile string

fun step :: "AddressBook \<times> files \<Rightarrow> operation \<Rightarrow> AddressBook \<times> files" where
  "step (b, fs) (AddRecord r) = (add_record b r, fs)"
| "step (b, fs) (Delete n) = (snd (delete b n), fs)"
| "step (b, fs) (ChangePhone n old_phone new_phone) = (snd (change_phone b n old_phone new_phone), fs)"
| "step (b, fs) (LoadFromFile f) = (snd (load_from_file b f fs), fs)"
| "step (b, fs) (SaveToFile f) = (b, save_to_file b f fs)"

fun run :: "AddressBook \<times> files \<Rightarrow> operation list \<Rightarrow> AddressBook \<times> files" where
  "run s [] = s"
| "run s (op # ops) = run (step s op) ops"

section \<open>Notions for birthdays\<close>

text \<open>
  The layout \<^verbatim>\<open>YYYY-MM-DD\<close>: ten characters, digits but for the two hyphens; the
  numbers it writes; and the dates that exist (\<^verbatim>\<open>datetime\<close> has the years 1 to 9999).
\<close>

definition ymd_pattern :: "string \<Rightarrow> bool" where
  "ymd_pattern s =
     (length s = 10 \<and> ascii_digit (s ! 0) \<and> ascii_digit (s ! 1) \<and> ascii_digit (s ! 2)
      \<and> ascii_digit (s ! 3) \<and> s ! 4 = CHR ''-'' \<and> ascii_digit (s ! 5) \<and> ascii_digit (s ! 6)
      \<and> s ! 7 = CHR ''-'' \<and> ascii_digit (s ! 8) \<and> ascii_digit (s ! 9))"




definition real_date :: "int \<Rightarrow> int \<Rightarrow> int \<Rightarrow> bool" where
  "real_date y m d =
     (1 \<le> y \<and> y \<le> 9999 \<and> 1 \<le> m \<and> m \<le> 12 \<and> 1 \<le> d \<and> d \<le> days_in_month y m)"

text \<open>A number below 100 in two digits, a number below 10000 in four.\<close>

definition two_digits :: "nat \<Rightarrow> string" where
  "two_digits n = [digit_char (n div 10), digit_char (n mod 10)]"

definition four_digits :: "nat \<Rightarrow> string" where
  "four_digits n =
     [digit_char (n div 1000), digit_char (n div 100 mod 10), digit_char (n div 10 mod 10),
      digit_char (n mod 10)]"

definition ymd_text :: "nat \<Rightarrow> nat \<Rightarrow> nat \<Rightarrow> string" where
  "ymd_text y m d = four_digits y @ ''-'' @ two_digits m @ ''-'' @ two_digits d"




text \<open>A date as it is displayed: the year as it is, month and day in two digits.\<close>

definition display_text :: "nat \<Rightarrow> nat \<Rightarrow> nat \<Rightarrow> string" where
  "display_text y m d = nat_digits y @ ''-'' @ two_digits m @ ''-'' @ two_digits d"

section \<open>What the constructors establish\<close>

text \<open>
  A phone holds a value that passed \<^const>\<open>validate_phone\<close>; a birthday holds a date as
  \<^verbatim>\<open>strptime\<close> returns it, an existing day at midnight. A record built by
  \<^const>\<open>Record_init\<close> and changed by \<^const>\<open>add_phone\<close> and \<^const>\<open>edit_phone\<close> has such
  phones and such a birthday.
\<close>

definition Phone_inv :: "Phone \<Rightarrow> bool" where
  "Phone_inv p = (validate_phone (phone_value p) = None)"

definition Birthday_inv :: "Birthday \<Rightarrow> bool" where
  "Birthday_inv b =
     (datetime_new (year (birthday_value b)) (month (birthday_value b)) (day (birthday_value b))
        = Inr (birthday_value b))"

definition Record_inv :: "Record \<Rightarrow> bool" where
  "Record_inv r =
     (list_all Phone_inv (phones r)
      \<and> (case birthday r of None \<Rightarrow> True | Some b \<Rightarrow> Birthday_inv b))"

definition book_inv :: "AddressBook \<Rightarrow> bool" where
  "book_inv self = (keys_are_names self \<and> list_all Record_inv (values_of self))"

text \<open>No phone of the book holds \<^verbatim>\<open>None\<close>.\<close>

definition phones_are_strings :: "AddressBook \<Rightarrow> bool" where
  "phones_are_strings self =
     list_all (\<lambda>r. list_all (\<lambda>p. phone_value p \<noteq> PNone) (phones r)) (values_of self)"

text \<open>A contact whose one phone was given as \<^verbatim>\<open>None\<close>, and the book that holds it.\<close>

definition carol :: Record where
  "carol = \<lparr>name = ''Carol'', birthday = None, phones = [\<lparr>phone_value = PNone\<rparr>]\<rparr>"

definition carol_only :: AddressBook where
  "carol_only = add_record AddressBook_init carol"

text \<open>Every birthday of the book is in a year of four digits.\<close>

definition years_have_four_digits :: "AddressBook \<Rightarrow> bool" where
  "years_have_four_digits self =
     list_all (\<lambda>r. case birthday r of None \<Rightarrow> True
                      | Some b \<Rightarrow> 1000 \<le> year (birthday_value b)) (values_of self)"

text \<open>A contact born on 1 January 999, and the book that holds it.\<close>

definition dora :: Record where
  "dora = \<lparr>name = ''Dora'', birthday = Some \<lparr>birthday_value = midnight 999 1 1\<rparr>,
            phones = [\<lparr>phone_value = PStr ''1234567890''\<rparr>]\<rparr>"

definition dora_only :: AddressBook where
  "dora_only = add_record AddressBook_init dora"

text \<open>A file that names Alice twice, in two spellings.\<close>

definition two_alices :: "jrecord list" where
  "two_alices = [to_json alice, to_json (alice\<lparr>name := ''alice''\<rparr>)]"

text \<open>The names of the entries of a dictionary of records, in lower case.\<close>

definition lnames :: "(string \<times> Record) list \<Rightarrow> string list" where
  "lnames d = map (\<lambda>r. lower (name r)) (map snd d)"

text \<open>An operation that adds a record adds one as the constructors make it.\<close>

definition adds_valid :: "operation \<Rightarrow> bool" where
  "adds_valid op = (case op of AddRecord r \<Rightarrow> Record_inv r | _ \<Rightarrow> True)"

section \<open>Properties of Phone\<close>

lemma isdigit_char_ascii:
  "(of_char c :: nat) < 128 \<Longrightarrow> isdigit_char c = ascii_digit c"
  by (auto simp: isdigit_char_def)

lemma isdigit_ascii:
  "list_all (\<lambda>c. (of_char c :: nat) < 128) s \<Longrightarrow> length s = 10
     \<Longrightarrow> isdigit s = list_all ascii_digit s"
  unfolding isdigit_def
  by (induction s) (auto simp: isdigit_char_ascii list_all_iff)

lemma validate_phone_ascii:
  "ascii_only v \<Longrightarrow>
     validate_phone v =
       (if v = PNone \<or> ten_ascii_digits v then None
        else Some (ValueError ''Invalid phone number format''))"
  by (cases v) (auto simp: validate_phone_def isdigit_ascii)

lemma ten_ascii_digits_valid:
  "ten_ascii_digits v \<Longrightarrow> validate_phone v = None"
  by (cases v) (auto simp: validate_phone_def isdigit_def isdigit_char_def list_all_iff)

text \<open>
  Outside ASCII the setter follows \<^verbatim>\<open>str.isdigit\<close>: ten superscript ones (U+00B9) are
  stored as a phone.
\<close>

lemma Phone_superscript_digits:
  "Phone_init (PStr (replicate 10 (CHR 0xB9)))
     = Inr \<lparr>phone_value = PStr (replicate 10 (CHR 0xB9))\<rparr>"
  by code_simp

text \<open>
  C3, as stated, at the value \<^verbatim>\<open>None\<close>: it is not a string of ten ASCII digits, and
  the constructor accepts it and stores it.
\<close>

theorem Phone_None_accepted:
  "Phone_init PNone = Inr \<lparr>phone_value = PNone\<rparr> \<and> \<not> ten_ascii_digits PNone"
  by (simp add: Phone_init_def Phone_set_value_def validate_phone_def)

text \<open>
  C3, amended. For a value that is \<^verbatim>\<open>None\<close>, a string of ASCII characters, or not a
  string at all: assigning it to a phone, or constructing a phone from it, succeeds if
  and only if it is \<^verbatim>\<open>None\<close> or a string of exactly ten ASCII digits. On success the
  value is stored, and a stored string is displayed as the identical string. Every other
  value is rejected with \<^verbatim>\<open>ValueError('Invalid phone number format')\<close> and the phone
  keeps the value it had.
\<close>

theorem Phone_assignment:
  "ascii_only v \<Longrightarrow>
     Phone_set_value p v =
       (if v = PNone \<or> ten_ascii_digits v then (None, p\<lparr>phone_value := v\<rparr>)
        else (Some (ValueError ''Invalid phone number format''), p))
     \<and> Phone_init v =
       (if v = PNone \<or> ten_ascii_digits v then Inr \<lparr>phone_value = v\<rparr>
        else Inl (ValueError ''Invalid phone number format''))
     \<and> (\<forall>s. v = PStr s \<and> ten_ascii_digits v
           \<longrightarrow> Phone_display (snd (Phone_set_value p v)) = s)"
  by (auto simp: Phone_set_value_def Phone_init_def validate_phone_ascii Phone_display_def
      split: option.splits if_splits)

theorem Phone_assignment_witness:
  "Phone_set_value \<lparr>phone_value = PStr ''5552223333''\<rparr> (PStr ''1234567890'')
     = (None, \<lparr>phone_value = PStr ''1234567890''\<rparr>)
   \<and> Phone_set_value \<lparr>phone_value = PStr ''5552223333''\<rparr> (PStr ''12345'')
     = (Some (ValueError ''Invalid phone number format''), \<lparr>phone_value = PStr ''5552223333''\<rparr>)
   \<and> Phone_init (PStr ''123456789x'') = Inl (ValueError ''Invalid phone number format'')
   \<and> Phone_init (PInt 1234567890) = Inl (ValueError ''Invalid phone number format'')
   \<and> Phone_display (snd (Phone_set_value \<lparr>phone_value = PNone\<rparr> (PStr ''1234567890'')))
     = ''1234567890''"
proof -
  have a: "ascii_only (PStr ''1234567890'')" and b: "ascii_only (PStr ''12345'')"
    and c: "ascii_only (PStr ''123456789x'')" and d: "ascii_only (PInt 1234567890)"
    by simp_all
  have ta: "ten_ascii_digits (PStr ''1234567890'')" by (simp add: ascii_digit_def)
  have tb: "\<not> ten_ascii_digits (PStr ''12345'')" by simp
  have tc: "\<not> ten_ascii_digits (PStr ''123456789x'')" by (simp add: ascii_digit_def)
  show ?thesis
    using Phone_assignment [OF a, of "\<lparr>phone_value = PStr ''5552223333''\<rparr>"]
      Phone_assignment [OF a, of "\<lparr>phone_value = PNone\<rparr>"]
      Phone_assignment [OF b, of "\<lparr>phone_value = PStr ''5552223333''\<rparr>"]
      Phone_assignment [OF c, of "\<lparr>phone_value = PNone\<rparr>"]
      Phone_assignment [OF d, of "\<lparr>phone_value = PNone\<rparr>"]
      ta tb tc
    by (simp add: Phone_display_def)
qed

section \<open>Pages\<close>

lemma take_drop_nth:
  "take n (drop a xs) = map (\<lambda>i. xs ! i) [a ..< min (a + n) (length xs)]"
proof (rule nth_equalityI)
  show "length (take n (drop a xs)) = length (map (\<lambda>i. xs ! i) [a ..< min (a + n) (length xs)])"
    by auto
next
  fix i assume "i < length (take n (drop a xs))"
  then have i: "i < n" "a + i < length xs" by auto
  then have "i < length [a ..< min (a + n) (length xs)]" by auto
  with i show "take n (drop a xs) ! i = map (\<lambda>i. xs ! i) [a ..< min (a + n) (length xs)] ! i"
    by simp
qed

text \<open>
  C8. In a book with page size 5 and \<open>N\<close> records, \<^verbatim>\<open>get_page(p)\<close> for \<open>p \<ge> 1\<close> is the
  list of the records at the positions \<open>[(p-1)*5, min(p*5, N))\<close> in insertion order, and
  it is empty when the page lies beyond the last record. \<^const>\<open>get_page\<close> has no
  failing branch: a slice with integer bounds raises nothing.
\<close>

theorem get_page_slice:
  "page_size self = 5 \<Longrightarrow> 1 \<le> p \<Longrightarrow>
     get_page self p
       = records_between self (nat ((p - 1) * 5)) (min (nat (p * 5)) (length (values_of self)))
     \<and> (int (length (values_of self)) \<le> (p - 1) * 5 \<longrightarrow> get_page self p = [])"
  unfolding get_page_def py_slice_def records_between_def Let_def take_drop_nth
  by (auto simp: min_def nat_add_distrib nat_diff_distrib)

theorem get_page_slice_witness:
  "page_size alice_and_bob = 5 \<and> (1::int) \<le> 1 \<and> get_page alice_and_bob 1 = [alice, bob]
     \<and> get_page alice_and_bob 2 = []"
proof -
  have ps: "page_size alice_and_bob = 5" by code_simp
  have v: "values_of alice_and_bob = [alice, bob]" by code_simp
  have u: "[0 ..< 2] = [0, Suc 0]" by (simp add: upt_rec)
  from get_page_slice [OF ps, of 1] get_page_slice [OF ps, of 2] ps v u show ?thesis
    by (simp add: records_between_def)
qed

section \<open>Search\<close>

lemma contains_empty: "contains s []"
  by (cases s) simp_all

lemma search_loop_empty:
  "search_loop [] rs acc = acc @ map Record_str rs"
  by (induction rs arbitrary: acc) (simp_all add: contains_empty)

text \<open>
  C10. A search for the empty string returns the display string of every record of the
  book, in insertion order. \<^const>\<open>search\<close> has no failing branch.
\<close>

theorem search_empty_query:
  "search self [] = map Record_str (values_of self)"
  by (simp add: search_def lower_def search_loop_empty)

section \<open>The first n records\<close>

lemma get_n_records_loop_repeats:
  "values_of self = r # rs \<Longrightarrow>
     get_n_records_loop self k acc = acc @ replicate k (Record_str r)"
  by (induction k arbitrary: acc)
     (simp_all add: next_of_new_def record_iterator_def replicate_app_Cons_same)

lemma get_n_records_loop_empty:
  "values_of self = [] \<Longrightarrow> get_n_records_loop self k acc = acc"
  by (cases k) (simp_all add: next_of_new_def record_iterator_def)

text \<open>
  Every round of the loop asks a new generator for its first item, so a book that is
  not empty gives \<open>n\<close> copies of the display string of its first record.
\<close>

lemma get_n_records_first_only:
  "values_of self = r # rs \<Longrightarrow> get_n_records self n = replicate (nat n) (Record_str r)"
  by (simp add: get_n_records_def get_n_records_loop_repeats)

text \<open>
  C2 on the book of Alice and Bob with \<open>n = 2\<close>: \<^const>\<open>get_n_records\<close> returns Alice's
  display string twice, where the first two display strings are Alice's and Bob's.
\<close>

theorem get_n_records_repeats_first:
  "get_n_records alice_and_bob 2 = [Record_str alice, Record_str alice]
   \<and> first_n_display alice_and_bob 2 = [Record_str alice, Record_str bob]
   \<and> Record_str alice \<noteq> Record_str bob"
  by code_simp

section \<open>Days to the birthday\<close>

text \<open>
  C1 at a birthday on 15 June, asked at 10:30 on 15 June 2023: this year's occurrence
  is midnight of the same day, which is before the time of asking, so the next year's
  is taken, and the whole days until then are 365. Asked at 10:30 on the day before,
  the result is 0.
\<close>

theorem days_to_birthday_on_the_day:
  "days_to_birthday alice
     \<lparr>year = 2023, month = 6, day = 15, hour = 10, minute = 30, second = 0, microsecond = 0\<rparr>
     = Inr (Some 365)
   \<and> days_to_birthday alice
     \<lparr>year = 2023, month = 6, day = 14, hour = 10, minute = 30, second = 0, microsecond = 0\<rparr>
     = Inr (Some 0)"
  by code_simp

text \<open>A birthday on 29 February, asked in a year that is not a leap year, raises.\<close>

lemma days_to_birthday_leap_day:
  "days_to_birthday (alice\<lparr>birthday := Some \<lparr>birthday_value = midnight 2024 2 29\<rparr>\<rparr>)
     \<lparr>year = 2023, month = 6, day = 14, hour = 10, minute = 30, second = 0, microsecond = 0\<rparr>
     = Inl (ValueError ''day is out of range for month'')"
  by code_simp

section \<open>Changing a phone\<close>

lemma lower_char_idem: "lower_char (lower_char c) = lower_char c"
  by (auto simp: lower_char_def Let_def)

lemma lower_idem: "lower (lower s) = lower s"
  by (simp add: lower_def lower_char_idem)

lemma edit_phone_loop_fail:
  "fst (edit_phone_loop ps old new) \<noteq> None \<Longrightarrow> snd (edit_phone_loop ps old new) = ps"
  by (induction ps) (auto simp: Phone_set_value_def split: prod.splits option.splits if_splits)

lemma edit_phone_loop_absent:
  "old \<notin> set (map (\<lambda>p. py_str (phone_value p)) ps) \<Longrightarrow>
     edit_phone_loop ps old new
       = (Some (ValueError ''Phone number does not exist in the record''), ps)"
  by (induction ps) auto

lemma edit_phone_fail:
  "fst (edit_phone r old new) \<noteq> None \<Longrightarrow> snd (edit_phone r old new) = r"
  using edit_phone_loop_fail [of "phones r" old new]
  by (auto simp: edit_phone_def split: prod.splits)

lemma edit_phone_absent:
  "old \<notin> set (get_phones r) \<Longrightarrow>
     edit_phone r old new = (Some (ValueError ''Phone number does not exist in the record''), r)"
  by (simp add: edit_phone_def get_phones_def edit_phone_loop_absent)

lemma set_record_at_same: "set_record_at self i (record_at self i) = self"
  by (simp add: set_record_at_def record_at_def)

lemma change_phone_fail:
  assumes "fst (change_phone self n old new) \<noteq> None"
  shows "snd (change_phone self n old new) = self"
proof (cases "index_of (lower n) (data self)")
  case None
  then show ?thesis by (simp add: change_phone_def lower_idem)
next
  case (Some i)
  let ?r = "record_at self i"
  have cp: "change_phone self n old new
              = (fst (edit_phone ?r old new), set_record_at self i (snd (edit_phone ?r old new)))"
    using Some by (simp add: change_phone_def lower_idem split: prod.splits)
  with assms have "fst (edit_phone ?r old new) \<noteq> None" by simp
  then have "snd (edit_phone ?r old new) = ?r" by (rule edit_phone_fail)
  with cp show ?thesis by (simp add: set_record_at_same)
qed

text \<open>
  C9. With no record of that name, compared in lower case, \<^verbatim>\<open>change_phone\<close> raises
  \<^verbatim>\<open>ValueError('Contact <name> not found')\<close> and leaves the book as it is. With a record
  found, it is \<^verbatim>\<open>edit_phone\<close> on that record: the same exception, if any, and the record
  as \<^verbatim>\<open>edit_phone\<close> leaves it, at its place in the book. \<^verbatim>\<open>edit_phone\<close> raises
  \<^verbatim>\<open>ValueError('Phone number does not exist in the record')\<close> when no stored phone has the
  text \<^verbatim>\<open>old\<close>. Whenever \<^verbatim>\<open>edit_phone\<close> raises, the record is unchanged, and whenever
  \<^verbatim>\<open>change_phone\<close> raises, the book is unchanged.
\<close>

theorem change_phone_errors:
  "(find_record self n = None \<longrightarrow>
      change_phone self n old new = (Some (ValueError (''Contact '' @ n @ '' not found'')), self))
   \<and> (\<forall>i. index_of (lower n) (data self) = Some i \<longrightarrow>
        find_record self n = Some (record_at self i)
        \<and> change_phone self n old new
            = (fst (edit_phone (record_at self i) old new),
               set_record_at self i (snd (edit_phone (record_at self i) old new))))
   \<and> (old \<notin> set (get_phones r) \<longrightarrow>
        edit_phone r old new
          = (Some (ValueError ''Phone number does not exist in the record''), r))
   \<and> (fst (edit_phone r old new) \<noteq> None \<longrightarrow> snd (edit_phone r old new) = r)
   \<and> (fst (change_phone self n old new) \<noteq> None \<longrightarrow> snd (change_phone self n old new) = self)"
proof (intro conjI impI allI)
  assume "find_record self n = None"
  then show "change_phone self n old new
               = (Some (ValueError (''Contact '' @ n @ '' not found'')), self)"
    by (simp add: change_phone_def find_record_def lower_idem)
next
  fix i assume "index_of (lower n) (data self) = Some i"
  then show "find_record self n = Some (record_at self i)"
    and "change_phone self n old new
            = (fst (edit_phone (record_at self i) old new),
               set_record_at self i (snd (edit_phone (record_at self i) old new)))"
    by (simp_all add: change_phone_def find_record_def lower_idem split: prod.splits)
next
  assume "old \<notin> set (get_phones r)"
  then show "edit_phone r old new
               = (Some (ValueError ''Phone number does not exist in the record''), r)"
    by (rule edit_phone_absent)
next
  assume "fst (edit_phone r old new) \<noteq> None"
  then show "snd (edit_phone r old new) = r" by (rule edit_phone_fail)
next
  assume "fst (change_phone self n old new) \<noteq> None"
  then show "snd (change_phone self n old new) = self" by (rule change_phone_fail)
qed

theorem change_phone_errors_witness:
  "change_phone alice_and_bob ''Carl'' ''1234567890'' (PStr ''0987654321'')
     = (Some (ValueError ''Contact Carl not found''), alice_and_bob)
   \<and> change_phone alice_and_bob ''ALICE'' ''5552223333'' (PStr ''0987654321'')
     = (Some (ValueError ''Phone number does not exist in the record''), alice_and_bob)
   \<and> change_phone alice_and_bob ''ALICE'' ''1234567890'' (PStr ''12345'')
     = (Some (ValueError ''Invalid phone number format''), alice_and_bob)"
proof -
  have f1: "find_record alice_and_bob ''Carl'' = None" by code_simp
  have i2: "index_of (lower ''ALICE'') (data alice_and_bob) = Some 0" by code_simp
  have r2: "record_at alice_and_bob 0 = alice" by code_simp
  have a2: "''5552223333'' \<notin> set (get_phones alice)" by code_simp
  have e3: "fst (change_phone alice_and_bob ''ALICE'' ''1234567890'' (PStr ''12345''))
              = Some (ValueError ''Invalid phone number format'')" by code_simp
  note t1 = change_phone_errors [of alice_and_bob "''Carl''" "''1234567890''"
      "PStr ''0987654321''" alice]
  note t2 = change_phone_errors [of alice_and_bob "''ALICE''" "''5552223333''"
      "PStr ''0987654321''" alice]
  note t3 = change_phone_errors [of alice_and_bob "''ALICE''" "''1234567890''"
      "PStr ''12345''" alice]
  have c1: "change_phone alice_and_bob ''Carl'' ''1234567890'' (PStr ''0987654321'')
     = (Some (ValueError ''Contact Carl not found''), alice_and_bob)"
    using t1 f1 by simp
  have c2: "change_phone alice_and_bob ''ALICE'' ''5552223333'' (PStr ''0987654321'')
     = (Some (ValueError ''Phone number does not exist in the record''), alice_and_bob)"
    using t2 i2 r2 a2 by (simp add: set_record_at_same [of alice_and_bob 0, unfolded r2])
  have c3: "change_phone alice_and_bob ''ALICE'' ''1234567890'' (PStr ''12345'')
     = (Some (ValueError ''Invalid phone number format''), alice_and_bob)"
    using t3 e3 by (metis option.distinct(1) prod.collapse)
  from c1 c2 c3 show ?thesis by simp
qed

section \<open>Adding a record twice\<close>

lemma index_of_None_iff:
  "index_of n d = None \<longleftrightarrow> n \<notin> set (map (\<lambda>r. lower (name r)) (map snd d))"
  by (induction d) auto

lemma index_of_append_new:
  "index_of n d = None \<Longrightarrow> lower (name (snd kv)) = n \<Longrightarrow> index_of n (d @ [kv]) = Some (length d)"
  by (induction d) (auto split: if_splits)

lemma dict_set_new: "k \<notin> fst ` set d \<Longrightarrow> dict_set d k v = d @ [(k, v)]"
  by (induction d) auto

lemma name_key_absent:
  "keys_are_names self \<Longrightarrow> index_of (lower (name r)) (data self) = None
     \<Longrightarrow> name r \<notin> fst ` set (data self)"
  by (force simp: keys_are_names_def index_of_None_iff list_all_iff)

lemma add_record_new:
  assumes "keys_are_names self" and "find_record self (name r) = None"
  shows "add_record self r = self\<lparr>data := data self @ [(name r, r)]\<rparr>"
proof -
  from assms(2) have i: "index_of (lower (name r)) (data self) = None"
    by (simp add: find_record_def)
  then have "lower (name r) \<notin> set (map (\<lambda>x. lower (name x)) (values_of self))"
    by (simp add: index_of_None_iff values_of_def)
  moreover from assms(1) i have "name r \<notin> fst ` set (data self)" by (rule name_key_absent)
  ultimately show ?thesis by (simp add: add_record_def dict_set_new)
qed

lemma add_record_merge_last:
  assumes "index_of (lower (name r2)) d = None" and "lower (name r1) = lower (name r2)"
  shows "add_record (self\<lparr>data := d @ [(k, r1)]\<rparr>) r2
           = self\<lparr>data := d @ [(k, r1\<lparr>phones := phones r1 @ phones r2\<rparr>)]\<rparr>"
proof -
  have "index_of (lower (name r2)) (d @ [(k, r1)]) = Some (length d)"
    using assms by (simp add: index_of_append_new)
  then show ?thesis
    using assms(2) by (simp add: add_record_def values_of_def set_record_at_def record_at_def)
qed

text \<open>
  C5. Let two records have names that are equal in lower case, and let the book hold no
  record of that name. Adding the first and then the second adds exactly one entry to
  the book: its key is the first record's name as written, and its record is the first
  record (so its birthday) with the phone list \<open>A @ B\<close>, the first record's phones
  followed by the second's, nothing removed.
\<close>

theorem add_record_twice_merges:
  "keys_are_names self \<Longrightarrow> find_record self (name r1) = None
     \<Longrightarrow> lower (name r2) = lower (name r1)
     \<Longrightarrow> add_record (add_record self r1) r2
           = self\<lparr>data := data self @ [(name r1, r1\<lparr>phones := phones r1 @ phones r2\<rparr>)]\<rparr>"
proof -
  assume k: "keys_are_names self" and f: "find_record self (name r1) = None"
    and l: "lower (name r2) = lower (name r1)"
  from f l have i: "index_of (lower (name r2)) (data self) = None"
    by (simp add: find_record_def)
  from k f have "add_record self r1 = self\<lparr>data := data self @ [(name r1, r1)]\<rparr>"
    by (rule add_record_new)
  with add_record_merge_last [OF i l [symmetric], where self = self and k = "name r1"]
  show ?thesis by simp
qed

theorem add_record_twice_merges_witness:
  "add_record (add_record AddressBook_init alice)
       (bob\<lparr>name := ''ALICE'', birthday := Some \<lparr>birthday_value = midnight 2001 1 2\<rparr>\<rparr>)
     = AddressBook_init\<lparr>data :=
         [(''Alice'', alice\<lparr>phones := [\<lparr>phone_value = PStr ''1234567890''\<rparr>,
                                         \<lparr>phone_value = PStr ''5552223333''\<rparr>]\<rparr>)]\<rparr>"
proof -
  let ?b = "bob\<lparr>name := ''ALICE'', birthday := Some \<lparr>birthday_value = midnight 2001 1 2\<rparr>\<rparr>"
  have k: "keys_are_names AddressBook_init" by (simp add: keys_are_names_def AddressBook_init_def)
  have f: "find_record AddressBook_init (name alice) = None"
    by (simp add: find_record_def AddressBook_init_def)
  have l: "lower (name ?b) = lower (name alice)" by code_simp
  have n: "name alice = ''Alice''" by (simp add: alice_def)
  have p: "phones alice @ phones ?b = [\<lparr>phone_value = PStr ''1234567890''\<rparr>,
                                         \<lparr>phone_value = PStr ''5552223333''\<rparr>]"
    by (simp add: alice_def bob_def)
  from add_record_twice_merges [OF k f l] n p show ?thesis
    by (simp add: AddressBook_init_def)
qed

section \<open>Parsing and printing dates\<close>

lemma char_eq_code: "(c = d) = ((of_char c :: nat) = of_char d)"
  by (simp add: of_char_eq_iff)

lemma of_char_digit_char: "q < 10 \<Longrightarrow> (of_char (digit_char q) :: nat) = 48 + q"
  by (simp add: digit_char_def)

lemma digit_char_props:
  assumes "q < 10"
  shows "ascii_digit (digit_char q)" "digit19 (digit_char q) = (1 \<le> q)"
    "digit_val (digit_char q) = int q"
    "(digit_char q = CHR ''0'') = (q = 0)" "(digit_char q = CHR ''1'') = (q = 1)"
    "(digit_char q = CHR ''2'') = (q = 2)" "(digit_char q = CHR ''3'') = (q = 3)"
    "digit_char q \<noteq> CHR '' ''" "digit_char q \<noteq> CHR ''-''"
  using assms
  by (auto simp: char_eq_code of_char_digit_char ascii_digit_def digit19_def digit_val_def)

lemma nat_digits_small: "n < 10 \<Longrightarrow> nat_digits n = [digit_char n]"
  by (simp add: nat_digits.simps)

lemma nat_digits_step: "10 \<le> n \<Longrightarrow> nat_digits n = nat_digits (n div 10) @ [digit_char (n mod 10)]"
  by (subst nat_digits.simps) simp

lemma digit_char_0: "digit_char 0 = CHR ''0''"
  by (simp add: char_eq_code digit_char_def)

lemma replicate_small:
  "replicate 3 c = [c, c, c]" "replicate 2 c = [c, c]" "replicate (Suc 0) c = [c]"
  by (simp_all add: numeral_eq_Suc)

lemma zfill2: "n < 100 \<Longrightarrow> zfill 2 (nat_digits n) = two_digits n"
proof (cases "n < 10")
  case True
  then show ?thesis
    by (simp add: zfill_def nat_digits_small two_digits_def digit_char_0 replicate_small)
next
  case False
  assume "n < 100"
  with False have "n div 10 < 10" by simp
  with False show ?thesis
    by (simp add: zfill_def nat_digits_step nat_digits_small two_digits_def)
qed

lemma nat_digits_four:
  assumes "1000 \<le> n" "n < 10000"
  shows "nat_digits n = four_digits n"
proof -
  have b: "n div 10 div 10 = n div 100" "n div 100 div 10 = n div 1000"
    by (simp_all add: div_mult2_eq)
  from assms have a: "10 \<le> n" "10 \<le> n div 10" "10 \<le> n div 100" "n div 1000 < 10"
    by simp_all
  have "nat_digits n = nat_digits (n div 10) @ [digit_char (n mod 10)]"
    using a by (simp add: nat_digits_step)
  also have "nat_digits (n div 10) = nat_digits (n div 100) @ [digit_char (n div 10 mod 10)]"
    using a b by (simp add: nat_digits_step)
  also have "nat_digits (n div 100) = nat_digits (n div 1000) @ [digit_char (n div 100 mod 10)]"
    using a b by (simp add: nat_digits_step)
  also have "nat_digits (n div 1000) = [digit_char (n div 1000)]"
    using a by (simp add: nat_digits_small)
  finally show ?thesis by (simp add: four_digits_def)
qed

lemma match_Y_digits:
  "a < 10 \<Longrightarrow> b < 10 \<Longrightarrow> c < 10 \<Longrightarrow> d < 10 \<Longrightarrow>
     match_Y (digit_char a # digit_char b # digit_char c # digit_char d # rest)
       = Some (1000 * int a + 100 * int b + 10 * int c + int d, rest)"
  by (simp add: digit_char_props)

lemma match_m_digits:
  "q < 10 \<Longrightarrow> r < 10 \<Longrightarrow>
     match_m (digit_char q # digit_char r # rest)
       = (if q = 1 \<and> r \<le> 2 then Some (10 + int r, rest)
          else if q = 0 \<and> 1 \<le> r then Some (int r, rest)
          else if 1 \<le> q then Some (int q, digit_char r # rest)
          else None)"
  apply (simp add: digit_char_props)
  apply (intro conjI impI)
  apply simp_all
  apply arith+
  done

lemma match_d_digits:
  "q < 10 \<Longrightarrow> r < 10 \<Longrightarrow>
     match_d (digit_char q # digit_char r # rest)
       = (if q = 3 \<and> r \<le> 1 then Some (30 + int r, rest)
          else if q = 1 \<or> q = 2 then Some (10 * int q + int r, rest)
          else if q = 0 \<and> 1 \<le> r then Some (int r, rest)
          else if 1 \<le> q then Some (int q, digit_char r # rest)
          else None)"
  apply (simp add: digit_char_props)
  apply (intro conjI impI)
  apply simp_all
  done

lemma four_digits_value_nat:
  "1000 * (n div 1000) + 100 * (n div 100 mod 10) + 10 * (n div 10 mod 10) + n mod 10 = (n::nat)"
proof -
  have a: "n mod 100 = 10 * (n div 10 mod 10) + n mod 10"
    using mod_mult2_eq [of n 10 10] by simp
  have b: "n mod 1000 = 100 * (n div 100 mod 10) + n mod 100"
    using mod_mult2_eq [of n 100 10] by simp
  have "n = 1000 * (n div 1000) + n mod 1000" by simp
  with a b show ?thesis by linarith
qed

lemma four_digits_value:
  "1000 * int (n div 1000) + 100 * int (n div 100 mod 10) + 10 * int (n div 10 mod 10)
       + int (n mod 10) = int n"
proof -
  have "int (1000 * (n div 1000) + 100 * (n div 100 mod 10) + 10 * (n div 10 mod 10) + n mod 10)
          = int n"
    by (simp only: four_digits_value_nat)
  then show ?thesis by (simp only: of_nat_add of_nat_mult of_nat_numeral)
qed

lemma two_digits_value: "10 * int (n div 10) + int (n mod 10) = int n"
proof -
  have "int (10 * (n div 10) + n mod 10) = int n" by simp
  then show ?thesis by (simp only: of_nat_add of_nat_mult of_nat_numeral)
qed

lemma match_m_two_digits:
  assumes "m < 100"
  shows "match_m (two_digits m @ rest)
           = (if 1 \<le> m \<and> m \<le> 12 then Some (int m, rest)
              else if 10 \<le> m then Some (int (m div 10), digit_char (m mod 10) # rest)
              else None)"
proof -
  have q: "m div 10 < 10" "m mod 10 < 10" using assms by simp_all
  consider "m = 0" | "1 \<le> m" "m < 10" | "10 \<le> m" "m \<le> 12" | "13 \<le> m" by linarith
  then show ?thesis
  proof cases
    case 1
    then show ?thesis using match_m_digits [OF q, of rest] by (simp add: two_digits_def)
  next
    case 2
    then have "m div 10 = 0" "m mod 10 = m" by simp_all
    with 2 show ?thesis using match_m_digits [OF q, of rest] by (simp add: two_digits_def)
  next
    case 3
    then have "m div 10 = 1" "m mod 10 \<le> 2" "10 + int (m mod 10) = int m" by presburger+
    with 3 show ?thesis using match_m_digits [OF q, of rest] by (simp add: two_digits_def)
  next
    case 4
    then have "1 \<le> m div 10" "\<not> (m div 10 = 1 \<and> m mod 10 \<le> 2)" "m div 10 \<noteq> 0"
      by presburger+
    with 4 show ?thesis using match_m_digits [OF q, of rest] by (simp add: two_digits_def)
  qed
qed

lemma match_d_two_digits:
  assumes "d < 100"
  shows "match_d (two_digits d @ rest)
           = (if 1 \<le> d \<and> d \<le> 31 then Some (int d, rest)
              else if 10 \<le> d then Some (int (d div 10), digit_char (d mod 10) # rest)
              else None)"
proof -
  have q: "d div 10 < 10" "d mod 10 < 10" using assms by simp_all
  note v = two_digits_value [of d]
  consider "d = 0" | "1 \<le> d" "d < 10" | "10 \<le> d" "d < 30" | "30 \<le> d" "d \<le> 31" | "32 \<le> d"
    by linarith
  then show ?thesis
  proof cases
    case 1
    then show ?thesis using match_d_digits [OF q, of rest] by (simp add: two_digits_def)
  next
    case 2
    then have "d div 10 = 0" "d mod 10 = d" by simp_all
    with 2 show ?thesis using match_d_digits [OF q, of rest] by (simp add: two_digits_def)
  next
    case 3
    then have "d div 10 = 1 \<or> d div 10 = 2" by presburger
    with 3 v show ?thesis using match_d_digits [OF q, of rest] by (auto simp add: two_digits_def)
  next
    case 4
    then have "d div 10 = 3" "d mod 10 \<le> 1" "30 + int (d mod 10) = int d" by presburger+
    with 4 show ?thesis using match_d_digits [OF q, of rest] by (simp add: two_digits_def)
  next
    case 5
    then have "3 \<le> d div 10" "\<not> (d div 10 = 3 \<and> d mod 10 \<le> 1)" by presburger+
    with 5 show ?thesis using match_d_digits [OF q, of rest] by (simp add: two_digits_def)
  qed
qed

lemma match_Y_four_digits:
  assumes "y < 10000"
  shows "match_Y (four_digits y @ rest) = Some (int y, rest)"
proof -
  have y: "y div 1000 < 10" "y div 100 mod 10 < 10" "y div 10 mod 10 < 10" "y mod 10 < 10"
    using assms by simp_all
  show ?thesis
    using match_Y_digits [OF y, of rest] four_digits_value [of y]
    by (simp add: four_digits_def)
qed

lemma two_digits_Cons: "two_digits n = digit_char (n div 10) # [digit_char (n mod 10)]"
  by (simp add: two_digits_def)

lemma match_ymd_text:
  assumes "y < 10000" "m < 100" "d < 100"
  shows "match_ymd (ymd_text y m d)
           = (if 1 \<le> m \<and> m \<le> 12
              then (if 1 \<le> d \<and> d \<le> 31 then Some ((int y, int m, int d), [])
                    else if 10 \<le> d
                      then Some ((int y, int m, int (d div 10)), [digit_char (d mod 10)])
                    else None)
              else None)"
proof -
  have dm: "m mod 10 < 10" by simp
  have Y: "match_Y (ymd_text y m d) = Some (int y, ''-'' @ two_digits m @ ''-'' @ two_digits d)"
    using match_Y_four_digits [OF assms(1)] by (simp add: ymd_text_def)
  have M: "match_m (two_digits m @ ''-'' @ two_digits d)
             = (if 1 \<le> m \<and> m \<le> 12 then Some (int m, ''-'' @ two_digits d)
                else if 10 \<le> m
                  then Some (int (m div 10), digit_char (m mod 10) # ''-'' @ two_digits d)
                else None)"
    by (rule match_m_two_digits [OF assms(2)])
  have D: "match_d (two_digits d)
             = (if 1 \<le> d \<and> d \<le> 31 then Some (int d, [])
                else if 10 \<le> d then Some (int (d div 10), [digit_char (d mod 10)])
                else None)"
    using match_d_two_digits [OF assms(3), of "[]"] by simp
  show ?thesis
    unfolding match_ymd_def Y
    using M D digit_char_props(9) [OF dm]
    by (simp split: option.splits)
qed

lemma days_in_month_bounds:
  assumes "1 \<le> m" "m \<le> 12"
  shows "28 \<le> days_in_month y m \<and> days_in_month y m \<le> 31"
proof -
  from assms have "m = 1 \<or> m = 2 \<or> m = 3 \<or> m = 4 \<or> m = 5 \<or> m = 6 \<or> m = 7 \<or> m = 8
      \<or> m = 9 \<or> m = 10 \<or> m = 11 \<or> m = 12" by arith
  then show ?thesis
    by (elim disjE) (simp_all add: days_in_month_def DAYS_IN_MONTH_def)
qed

lemma datetime_new_real:
  "real_date y m d \<Longrightarrow> datetime_new y m d = Inr (midnight y m d)"
  by (simp add: real_date_def datetime_new_def midnight_def)


lemma datetime_new_Inr:
  "datetime_new y m d = Inr t \<Longrightarrow> real_date y m d \<and> t = midnight y m d"
  by (auto simp: real_date_def datetime_new_def midnight_def split: if_splits)

lemma strptime_text_real:
  assumes "y < 10000" "m < 100" "d < 100" "real_date (int y) (int m) (int d)"
  shows "strptime (PStr (ymd_text y m d)) = Inr (midnight (int y) (int m) (int d))"
proof -
  from assms(4) have m: "1 \<le> m" "m \<le> 12" and d1: "1 \<le> d"
    and dd: "int d \<le> days_in_month (int y) (int m)"
    by (simp_all add: real_date_def)
  from m have "days_in_month (int y) (int m) \<le> 31"
    using days_in_month_bounds [of "int m" "int y"] by simp
  with dd have "d \<le> 31" by linarith
  with m d1 have "match_ymd (ymd_text y m d) = Some ((int y, int m, int d), [])"
    by (simp add: match_ymd_text [OF assms(1-3)])
  then show ?thesis
    by (simp add: strptime_def datetime_new_real [OF assms(4)])
qed


lemma strftime_midnight:
  assumes "0 \<le> m" "0 \<le> d" "m < 100" "d < 100"
  shows "strftime (midnight y m d) = display_text (nat y) (nat m) (nat d)"
proof -
  from assms have "nat m < 100" "nat d < 100" by simp_all
  then show ?thesis
    by (simp add: strftime_def midnight_def display_text_def zfill2)
qed

lemma display_text_four:
  "1000 \<le> y \<Longrightarrow> y < 10000 \<Longrightarrow> display_text y m d = ymd_text y m d"
  by (simp add: display_text_def ymd_text_def nat_digits_four)

lemma real_date_ranges:
  assumes "real_date y m d"
  shows "0 \<le> y" "0 \<le> m" "0 \<le> d" "y < 10000" "m < 100" "d < 100"
  using assms days_in_month_bounds [of m y] by (auto simp: real_date_def)

lemma strftime_real:
  assumes "real_date y m d"
  shows "strftime (midnight y m d) = display_text (nat y) (nat m) (nat d)"
  using real_date_ranges [OF assms] by (simp add: strftime_midnight)

lemma strptime_strftime:
  assumes "real_date y m d" "1000 \<le> y"
  shows "strptime (PStr (strftime (midnight y m d))) = Inr (midnight y m d)"
proof -
  note r = real_date_ranges [OF assms(1)]
  from r have n: "nat y < 10000" "nat m < 100" "nat d < 100" by simp_all
  from r assms have "real_date (int (nat y)) (int (nat m)) (int (nat d))" by simp
  from strptime_text_real [OF n this] r assms(2) show ?thesis
    by (simp add: strftime_real [OF assms(1)] display_text_four)
qed







lemma ymd_text_pattern:
  assumes "y < 10000" "m < 100" "d < 100"
  shows "ymd_pattern (ymd_text y m d)"
proof -
  have "y div 1000 < 10" "y div 100 mod 10 < 10" "y div 10 mod 10 < 10" "y mod 10 < 10"
    "m div 10 < 10" "m mod 10 < 10" "d div 10 < 10" "d mod 10 < 10"
    using assms by simp_all
  then show ?thesis
    by (simp add: ymd_pattern_def ymd_text_def four_digits_def two_digits_def digit_char_props(1))
qed

lemma strptime_str_Inl:
  "strptime (PStr s) = Inl e \<Longrightarrow> \<exists>msg. e = ValueError msg"
  by (auto simp: strptime_def datetime_new_def split: option.splits if_splits)

lemma strptime_Inr:
  "strptime v = Inr t \<Longrightarrow> \<exists>y m d. real_date y m d \<and> t = midnight y m d"
  by (auto simp: strptime_def split: pyval.splits option.splits if_splits)
     (blast dest: datetime_new_Inr)

lemma Birthday_init_str:
  "Birthday_init (PStr s)
     = (case strptime (PStr s) of
          Inr t \<Rightarrow> Inr \<lparr>birthday_value = t\<rparr>
        | Inl e \<Rightarrow> Inl (ValueError ''Invalid birthday format. Please use YYYY-MM-DD''))"
proof (cases "strptime (PStr s)")
  case (Inl e)
  with strptime_str_Inl [OF Inl] show ?thesis
    by (auto simp: Birthday_init_def validate_birthday_def)
next
  case (Inr t)
  then show ?thesis by (simp add: Birthday_init_def validate_birthday_def)
qed



















lemma Birthday_str_real:
  assumes "real_date y m d"
  shows "Birthday_str \<lparr>birthday_value = midnight y m d\<rparr> = display_text (nat y) (nat m) (nat d)"
  using strftime_real [OF assms] by (simp add: Birthday_str_def)

lemma Birthday_str_four:
  assumes "real_date y m d" "1000 \<le> y"
  shows "Birthday_str \<lparr>birthday_value = midnight y m d\<rparr> = ymd_text (nat y) (nat m) (nat d)"
    and "ymd_pattern (Birthday_str \<lparr>birthday_value = midnight y m d\<rparr>)"
    and "Birthday_init (PStr (Birthday_str \<lparr>birthday_value = midnight y m d\<rparr>))
           = Inr \<lparr>birthday_value = midnight y m d\<rparr>"
proof -
  note r = real_date_ranges [OF assms(1)]
  from r assms(2) have n: "1000 \<le> nat y" "nat y < 10000" "nat m < 100" "nat d < 100"
    by simp_all
  show t: "Birthday_str \<lparr>birthday_value = midnight y m d\<rparr> = ymd_text (nat y) (nat m) (nat d)"
    using n by (simp add: Birthday_str_real [OF assms(1)] display_text_four)
  show "ymd_pattern (Birthday_str \<lparr>birthday_value = midnight y m d\<rparr>)"
    unfolding t using n(2-4) by (rule ymd_text_pattern)
  show "Birthday_init (PStr (Birthday_str \<lparr>birthday_value = midnight y m d\<rparr>))
           = Inr \<lparr>birthday_value = midnight y m d\<rparr>"
    using strptime_strftime [OF assms] by (simp add: Birthday_init_str Birthday_str_def)
qed











section \<open>Saving and loading\<close>

lemma Phone_eq: "(p = \<lparr>phone_value = v\<rparr>) = (phone_value p = v)"
  by (cases p) auto

lemma Phone_init_stored:
  assumes "Phone_inv p" "phone_value p \<noteq> PNone"
  shows "Phone_init (PStr (py_str (phone_value p))) = Inr p"
proof -
  from assms obtain s where s: "phone_value p = PStr s"
    by (cases "phone_value p") (auto simp: Phone_inv_def validate_phone_def)
  with assms(1) have "validate_phone (PStr s) = None" by (simp add: Phone_inv_def)
  with s show ?thesis
    by (simp add: Phone_init_def Phone_set_value_def Phone_eq)
qed

lemma Phone_init_all_stored:
  "list_all Phone_inv ps \<Longrightarrow> list_all (\<lambda>p. phone_value p \<noteq> PNone) ps
     \<Longrightarrow> Phone_init_all (map (\<lambda>phone. PStr (py_str (phone_value phone))) ps) = Inr ps"
  by (induction ps) (simp_all add: Phone_init_stored)

lemma Birthday_eq: "(b = \<lparr>birthday_value = t\<rparr>) = (birthday_value b = t)"
  by (cases b) auto

lemma Birthday_inv_real:
  assumes "Birthday_inv b"
  shows "\<exists>y m d. real_date y m d \<and> b = \<lparr>birthday_value = midnight y m d\<rparr>"
  using datetime_new_Inr [OF assms [unfolded Birthday_inv_def]]
  by (auto simp: Birthday_eq)

lemma display_text_nonempty: "display_text y m d \<noteq> []"
  by (simp add: display_text_def)

lemma Birthday_init_stored:
  assumes "Birthday_inv b" "1000 \<le> year (birthday_value b)"
  shows "truthy (PStr (Birthday_str b))" "Birthday_init (PStr (Birthday_str b)) = Inr b"
proof -
  from Birthday_inv_real [OF assms(1)] obtain y m d
    where r: "real_date y m d" and b: "b = \<lparr>birthday_value = midnight y m d\<rparr>" by auto
  from assms(2) b have y: "1000 \<le> y" by (simp add: midnight_def)
  show "truthy (PStr (Birthday_str b))"
    unfolding b Birthday_str_real [OF r] by (simp add: display_text_nonempty)
  show "Birthday_init (PStr (Birthday_str b)) = Inr b"
    unfolding b by (rule Birthday_str_four(3) [OF r y])
qed

lemma Record_init_to_json:
  assumes "Record_inv r" "list_all (\<lambda>p. phone_value p \<noteq> PNone) (phones r)"
    and "case birthday r of None \<Rightarrow> True | Some b \<Rightarrow> 1000 \<le> year (birthday_value b)"
  shows "Record_init (jname (to_json r)) (jbirthday (to_json r)) (jphones (to_json r)) = Inr r"
proof -
  from assms(1,2) have ph: "Phone_init_all (map (\<lambda>phone. PStr (py_str (phone_value phone))) (phones r))
      = Inr (phones r)"
    by (simp add: Record_inv_def Phone_init_all_stored)
  have bd: "(if truthy (jbirthday (to_json r))
             then map_sum id Some (Birthday_init (jbirthday (to_json r))) else Inr None)
            = Inr (birthday r)"
  proof (cases "birthday r")
    case None
    then show ?thesis by (simp add: to_json_def)
  next
    case (Some b)
    with assms(1,3) have "Birthday_inv b" "1000 \<le> year (birthday_value b)"
      by (simp_all add: Record_inv_def)
    from Birthday_init_stored [OF this] Some show ?thesis by (simp add: to_json_def)
  qed
  show ?thesis
    unfolding Record_init_def bd
    using ph by (cases "phones r") (simp_all add: to_json_def)
qed

lemma build_dict_to_json:
  "list_all Record_inv rs
     \<Longrightarrow> list_all (\<lambda>r. list_all (\<lambda>p. phone_value p \<noteq> PNone) (phones r)) rs
     \<Longrightarrow> list_all (\<lambda>r. case birthday r of None \<Rightarrow> True
                          | Some b \<Rightarrow> 1000 \<le> year (birthday_value b)) rs
     \<Longrightarrow> distinct (map fst d @ map name rs)
     \<Longrightarrow> build_dict (map to_json rs) d = Inr (d @ map (\<lambda>r. (name r, r)) rs)"
proof (induction rs arbitrary: d)
  case Nil
  then show ?case by simp
next
  case (Cons r rs)
  from Cons.prems have n: "name r \<notin> fst ` set d" by auto
  have j: "jname (to_json r) = name r" by (simp add: to_json_def)
  from Cons.prems have "Record_init (jname (to_json r)) (jbirthday (to_json r)) (jphones (to_json r)) = Inr r"
    by (simp add: Record_init_to_json)
  moreover from Cons.prems have "distinct (map fst (d @ [(name r, r)]) @ map name rs)" by auto
  ultimately show ?case
    using Cons.IH [of "d @ [(name r, r)]"] Cons.prems n by (simp add: j dict_set_new)
qed

lemma keys_are_names_data:
  "keys_are_names self \<Longrightarrow> data self = map (\<lambda>r. (name r, r)) (values_of self)"
  by (auto simp: keys_are_names_def values_of_def list_all_iff intro!: nth_equalityI)
     (metis nth_mem prod.collapse)

lemma keys_are_names_distinct:
  "keys_are_names self \<Longrightarrow> distinct (map name (values_of self))"
proof -
  assume k: "keys_are_names self"
  from keys_are_names_data [OF k] have "map fst (data self) = map name (values_of self)"
    by (metis (no_types, lifting) map_map comp_def fst_conv map_eq_conv)
  with k show ?thesis by (simp add: keys_are_names_def)
qed

text \<open>
  C6, amended. Let the book store every record under its name, with phones and
  birthdays as the constructors make them, let no phone hold \<^verbatim>\<open>None\<close>, and let every
  birthday be in a year from 1000 on. Then writing the book to a file and loading that
  file into any book, a new one included, raises nothing and gives that book the same
  entries: the same names in the same order, each with the same birthday and the same
  list of phones.
\<close>

theorem save_then_load:
  "book_inv self \<Longrightarrow> phones_are_strings self \<Longrightarrow> years_have_four_digits self \<Longrightarrow>
     load_from_file other f (save_to_file self f fs) = (None, other\<lparr>data := data self\<rparr>)"
proof -
  assume b: "book_inv self" and p: "phones_are_strings self"
    and y: "years_have_four_digits self"
  from b have k: "keys_are_names self" and r: "list_all Record_inv (values_of self)"
    by (simp_all add: book_inv_def)
  from keys_are_names_distinct [OF k]
  have "distinct (map fst ([] :: (string \<times> Record) list) @ map name (values_of self))" by simp
  from build_dict_to_json [OF r p [unfolded phones_are_strings_def]
      y [unfolded years_have_four_digits_def] this]
  have "build_dict (map to_json (values_of self)) [] = Inr (data self)"
    using keys_are_names_data [OF k] by simp
  then show ?thesis by (simp add: load_from_file_def save_to_file_def)
qed

theorem save_then_load_witness:
  "book_inv alice_and_bob \<and> phones_are_strings alice_and_bob
   \<and> years_have_four_digits alice_and_bob
   \<and> load_from_file AddressBook_init ''book.json''
         (save_to_file alice_and_bob ''book.json'' Map.empty)
       = (None, alice_and_bob)"
proof -
  have b: "book_inv alice_and_bob" by code_simp
  have p: "phones_are_strings alice_and_bob" by code_simp
  have y: "years_have_four_digits alice_and_bob" by code_simp
  have e: "AddressBook_init\<lparr>data := data alice_and_bob\<rparr> = alice_and_bob" by code_simp
  from save_then_load [OF b p y, of AddressBook_init "''book.json''" Map.empty] b p y e
  show ?thesis by simp
qed

text \<open>
  C6, as stated, at two books. Carol was constructed with the phone \<^verbatim>\<open>None\<close>: the file
  holds the text \<^verbatim>\<open>None\<close> for that phone. Dora was constructed with the birthday
  \<^verbatim>\<open>0999-01-01\<close>: the file holds \<^verbatim>\<open>999-01-01\<close>. Loading either file raises
  \<^verbatim>\<open>ValueError\<close>, and the new book stays empty.
\<close>

theorem save_then_load_raises:
  "Record_init ''Carol'' PNone (Some [PNone]) = Inr carol
   \<and> carol_only = AddressBook_init\<lparr>data := [(''Carol'', carol)]\<rparr>
   \<and> load_from_file AddressBook_init ''book.json'' (save_to_file carol_only ''book.json'' Map.empty)
       = (Some (ValueError ''Invalid phone number format''), AddressBook_init)
   \<and> Record_init ''Dora'' (PStr ''0999-01-01'') (Some [PStr ''1234567890'']) = Inr dora
   \<and> dora_only = AddressBook_init\<lparr>data := [(''Dora'', dora)]\<rparr>
   \<and> jbirthday (to_json dora) = PStr ''999-01-01''
   \<and> load_from_file AddressBook_init ''book.json'' (save_to_file dora_only ''book.json'' Map.empty)
       = (Some (ValueError ''Invalid birthday format. Please use YYYY-MM-DD''), AddressBook_init)"
  by code_simp

section \<open>One record per name\<close>

lemma ci_unique_lnames: "ci_unique self = distinct (lnames (data self))"
  by (simp add: ci_unique_def values_of_def lnames_def)

lemma lnames_simps:
  "lnames [] = []" "lnames ((k, v) # d) = lower (name v) # lnames d"
  "lnames (d @ e) = lnames d @ lnames e"
  by (simp_all add: lnames_def)

lemma lnames_dict_set_subset:
  "set (lnames (dict_set d k v)) \<subseteq> insert (lower (name v)) (set (lnames d))"
proof (induction d)
  case Nil
  show ?case by (simp add: lnames_simps)
next
  case (Cons kv d)
  obtain k' v' where kv: "kv = (k', v')" by (cases kv)
  from Cons.IH show ?case unfolding kv by (auto simp: lnames_simps)
qed

lemma lnames_dict_set_distinct:
  "distinct (lnames d) \<Longrightarrow> lower (name v) \<notin> set (lnames d)
     \<Longrightarrow> distinct (lnames (dict_set d k v))"
proof (induction d)
  case Nil
  then show ?case by (simp add: lnames_def)
next
  case (Cons kv d)
  obtain k' v' where kv: "kv = (k', v')" by (cases kv)
  from Cons.prems have d: "distinct (lnames d)" and n: "lower (name v) \<notin> set (lnames d)"
    and h: "lower (name v') \<notin> set (lnames d)" and ne: "lower (name v) \<noteq> lower (name v')"
    by (auto simp: lnames_def kv)
  show ?case
  proof (cases "k' = k")
    case True
    with d n show ?thesis by (simp add: kv lnames_def)
  next
    case False
    from lnames_dict_set_subset [of d k v] h ne
    have "lower (name v') \<notin> set (lnames (dict_set d k v))" by auto
    with False Cons.IH [OF d n] show ?thesis by (simp add: kv lnames_def)
  qed
qed

lemma index_of_Some:
  "index_of n d = Some i \<Longrightarrow> i < length d \<and> lower (name (snd (d ! i))) = n"
proof (induction d arbitrary: i)
  case Nil
  then show ?case by simp
next
  case (Cons kv d)
  then show ?case by (cases i) (auto split: if_splits)
qed

lemma lnames_update_same_name:
  "i < length d \<Longrightarrow> name r = name (snd (d ! i))
     \<Longrightarrow> lnames (d[i := (fst (d ! i), r)]) = lnames d"
  by (simp add: lnames_def map_update list_update_same_conv)

lemma set_record_at_ci_unique:
  assumes "ci_unique self" "i < length (data self)" "name r = name (record_at self i)"
  shows "ci_unique (set_record_at self i r)"
  using assms
  by (simp add: ci_unique_lnames set_record_at_def record_at_def lnames_update_same_name)

lemma add_record_ci_unique:
  assumes "ci_unique self"
  shows "ci_unique (add_record self r)"
proof (cases "lower (name r) \<in> set (map (\<lambda>e. lower (name e)) (values_of self))")
  case True
  show ?thesis
  proof (cases "index_of (lower (name r)) (data self)")
    case None
    with True assms show ?thesis by (simp add: add_record_def)
  next
    case (Some i)
    from index_of_Some [OF Some] have i: "i < length (data self)" by simp
    have "add_record self r = set_record_at self i
            ((record_at self i)\<lparr>phones := phones (record_at self i) @ phones r\<rparr>)"
      using True Some by (simp add: add_record_def)
    with set_record_at_ci_unique [OF assms i] show ?thesis by simp
  qed
next
  case False
  then have n: "lower (name r) \<notin> set (lnames (data self))"
    by (simp add: lnames_def values_of_def)
  have "add_record self r = self\<lparr>data := dict_set (data self) (name r) r\<rparr>"
    using False by (simp add: add_record_def)
  with assms n show ?thesis
    by (simp add: ci_unique_lnames lnames_dict_set_distinct)
qed

lemma lnames_filter_distinct: "distinct (lnames d) \<Longrightarrow> distinct (lnames (filter P d))"
  by (induction d) (auto simp: lnames_def)

lemma delete_ci_unique:
  assumes "ci_unique self"
  shows "ci_unique (snd (delete self n))"
  using assms
  by (auto simp: delete_def dict_del_def ci_unique_lnames lnames_filter_distinct
      split: option.splits)

lemma edit_phone_name: "name (snd (edit_phone r old new)) = name r"
  by (simp add: edit_phone_def split: prod.splits)

lemma change_phone_ci_unique:
  assumes "ci_unique self"
  shows "ci_unique (snd (change_phone self n old new))"
proof (cases "index_of (lower (lower n)) (data self)")
  case None
  with assms show ?thesis by (simp add: change_phone_def)
next
  case (Some i)
  from index_of_Some [OF Some] have i: "i < length (data self)" by simp
  have "snd (change_phone self n old new)
          = set_record_at self i (snd (edit_phone (record_at self i) old new))"
    using Some by (simp add: change_phone_def split: prod.splits)
  with set_record_at_ci_unique [OF assms i, of "snd (edit_phone (record_at self i) old new)"]
  show ?thesis by (simp add: edit_phone_name)
qed

lemma Record_init_name: "Record_init n b ps = Inr r \<Longrightarrow> name r = n"
  by (auto simp: Record_init_def split: sum.splits)

lemma build_dict_distinct:
  "build_dict js d = Inr d' \<Longrightarrow> distinct (lnames d)
     \<Longrightarrow> distinct (map (\<lambda>j. lower (jname j)) js)
     \<Longrightarrow> set (lnames d) \<inter> set (map (\<lambda>j. lower (jname j)) js) = {}
     \<Longrightarrow> distinct (lnames d')"
proof (induction js arbitrary: d)
  case Nil
  then show ?case by simp
next
  case (Cons j js)
  from Cons.prems(1) obtain r
    where r: "Record_init (jname j) (jbirthday j) (jphones j) = Inr r"
      and b: "build_dict js (dict_set d (jname j) r) = Inr d'"
    by (auto split: sum.splits)
  from Record_init_name [OF r] have n: "lower (name r) = lower (jname j)" by simp
  with Cons.prems have "lower (name r) \<notin> set (lnames d)" by auto
  with Cons.prems(2) have 1: "distinct (lnames (dict_set d (jname j) r))"
    by (rule lnames_dict_set_distinct)
  from Cons.prems(3) have 2: "distinct (map (\<lambda>j. lower (jname j)) js)" by simp
  have x: "lower (jname j) \<notin> set (map (\<lambda>j. lower (jname j)) js)"
    using Cons.prems(3) by simp
  have y: "set (lnames d) \<inter> set (map (\<lambda>j. lower (jname j)) js) = {}"
    using Cons.prems(4) by auto
  have z: "set (lnames (dict_set d (jname j) r)) \<subseteq> insert (lower (jname j)) (set (lnames d))"
    using lnames_dict_set_subset [of d "jname j" r] n by simp
  from x y z
  have 3: "set (lnames (dict_set d (jname j) r)) \<inter> set (map (\<lambda>j. lower (jname j)) js) = {}"
    by blast
  from Cons.IH [OF b 1 2 3] show ?case .
qed

lemma load_from_file_ci_unique:
  assumes "ci_unique self" "\<forall>content \<in> ran fs. file_ci_unique content"
  shows "ci_unique (snd (load_from_file self f fs))"
proof (cases "fs f")
  case None
  with assms show ?thesis by (simp add: load_from_file_def)
next
  case (Some content)
  then have "content \<in> ran fs" by (auto simp: ran_def)
  with assms(2) have u: "distinct (map (\<lambda>j. lower (jname j)) content)"
    by (simp add: file_ci_unique_def)
  show ?thesis
  proof (cases "build_dict content []")
    case (Inl e)
    with Some assms show ?thesis by (simp add: load_from_file_def)
  next
    case (Inr d)
    from build_dict_distinct [OF Inr _ u] have "distinct (lnames d)" by (simp add: lnames_def)
    with Some Inr show ?thesis by (simp add: load_from_file_def ci_unique_lnames)
  qed
qed

lemma save_to_file_ci_unique:
  assumes "ci_unique self" "\<forall>content \<in> ran fs. file_ci_unique content"
  shows "\<forall>content \<in> ran (save_to_file self f fs). file_ci_unique content"
proof
  fix content assume "content \<in> ran (save_to_file self f fs)"
  then have "content = map to_json (values_of self) \<or> content \<in> ran fs"
    by (auto simp: save_to_file_def ran_def split: if_splits)
  moreover have "file_ci_unique (map to_json (values_of self))"
    using assms(1) by (simp add: file_ci_unique_def ci_unique_def to_json_def comp_def)
  ultimately show "file_ci_unique content" using assms(2) by auto
qed

lemma step_ci_unique:
  assumes "ci_unique (fst s)" "\<forall>content \<in> ran (snd s). file_ci_unique content"
  shows "ci_unique (fst (step s op)) \<and> (\<forall>content \<in> ran (snd (step s op)). file_ci_unique content)"
proof -
  obtain b fs where s: "s = (b, fs)" by (cases s)
  from assms show ?thesis
    unfolding s
    by (cases op)
       (simp_all add: add_record_ci_unique delete_ci_unique change_phone_ci_unique
          load_from_file_ci_unique save_to_file_ci_unique)
qed

text \<open>
  C4, amended. Start from a book with at most one record per name, names compared in
  lower case (the new book is one), and from files in each of which the names differ in
  lower case (no file at all, or files written by \<^verbatim>\<open>save_to_file\<close> from such books).
  After any sequence of \<^verbatim>\<open>add_record\<close>, \<^verbatim>\<open>delete\<close>, \<^verbatim>\<open>change_phone\<close>,
  \<^verbatim>\<open>load_from_file\<close> and \<^verbatim>\<open>save_to_file\<close>, whether the calls return or raise, the book
  holds at most one record per name, names compared in lower case.
\<close>

theorem run_keeps_one_record_per_name:
  "ci_unique b \<Longrightarrow> \<forall>content \<in> ran fs. file_ci_unique content
     \<Longrightarrow> ci_unique (fst (run (b, fs) ops))"
proof -
  have "ci_unique (fst (run s ops))"
    if "ci_unique (fst s)" "\<forall>content \<in> ran (snd s). file_ci_unique content" for s
    using that
  proof (induction ops arbitrary: s)
    case Nil
    then show ?case by simp
  next
    case (Cons op ops)
    from step_ci_unique [OF Cons.prems, of op] Cons.IH [of "step s op"]
    show ?case by simp
  qed
  from this [of "(b, fs)"]
  show "ci_unique b \<Longrightarrow> \<forall>content \<in> ran fs. file_ci_unique content
     \<Longrightarrow> ci_unique (fst (run (b, fs) ops))" by simp
qed

text \<open>
  C4, as stated, at a file that names Alice in two spellings: \<^verbatim>\<open>load_from_file\<close> into
  the new book keys the records by their names as written, and the book then holds two
  records whose names are equal in lower case.
\<close>

theorem load_two_spellings:
  "ci_unique AddressBook_init
   \<and> values_of (fst (run (AddressBook_init, [''book.json'' \<mapsto> two_alices])
                        [LoadFromFile ''book.json'']))
       = [alice, alice\<lparr>name := ''alice''\<rparr>]
   \<and> lower (name alice) = lower (name (alice\<lparr>name := ''alice''\<rparr>))
   \<and> \<not> ci_unique (fst (run (AddressBook_init, [''book.json'' \<mapsto> two_alices])
                            [LoadFromFile ''book.json'']))"
  by code_simp

theorem run_keeps_one_record_per_name_witness:
  "ci_unique (fst (run (AddressBook_init, Map.empty)
      [AddRecord alice, AddRecord (bob\<lparr>name := ''ALICE''\<rparr>), SaveToFile ''book.json'',
       Delete ''alice'', AddRecord bob, ChangePhone ''BOB'' ''5552223333'' (PStr ''0987654321''),
       LoadFromFile ''book.json'']))"
proof -
  have a: "ci_unique AddressBook_init" by code_simp
  have b: "\<forall>content \<in> ran (Map.empty :: files). file_ci_unique content" by simp
  from run_keeps_one_record_per_name [OF a b] show ?thesis .
qed

section \<open>Books that the operations build\<close>

lemma Phone_init_inv: "Phone_init v = Inr p \<Longrightarrow> Phone_inv p"
  by (auto simp: Phone_init_def Phone_set_value_def Phone_inv_def split: option.splits)

lemma Phone_init_all_inv: "Phone_init_all vs = Inr ps \<Longrightarrow> list_all Phone_inv ps"
  by (induction vs arbitrary: ps) (auto split: sum.splits dest: Phone_init_inv)

lemma Birthday_init_inv: "Birthday_init v = Inr b \<Longrightarrow> Birthday_inv b"
proof -
  assume "Birthday_init v = Inr b"
  then have "strptime v = Inr (birthday_value b)"
    by (auto simp: Birthday_init_def split: option.splits sum.splits)
  from strptime_Inr [OF this] obtain y m d
    where "real_date y m d" "birthday_value b = midnight y m d" by auto
  with datetime_new_real [of y m d] show ?thesis
    by (simp add: Birthday_inv_def midnight_def)
qed

lemma map_sum_Some: "map_sum id Some x = Inr (Some b) \<Longrightarrow> x = Inr b"
  by (cases x) auto

lemma Record_init_inv: "Record_init n b ps = Inr r \<Longrightarrow> Record_inv r"
  by (auto simp: Record_init_def Record_inv_def split: sum.splits if_splits option.splits
      dest!: map_sum_Some dest: Phone_init_all_inv Birthday_init_inv)

lemma add_phone_inv: "Record_inv r \<Longrightarrow> Record_inv (snd (add_phone r v))"
  by (auto simp: add_phone_def Record_inv_def split: sum.splits dest: Phone_init_inv)

lemma edit_phone_loop_inv:
  "list_all Phone_inv ps \<Longrightarrow> list_all Phone_inv (snd (edit_phone_loop ps old new))"
  by (induction ps)
     (auto simp: Phone_set_value_def Phone_inv_def split: prod.splits option.splits)

lemma edit_phone_inv: "Record_inv r \<Longrightarrow> Record_inv (snd (edit_phone r old new))"
  using edit_phone_loop_inv [of "phones r" old new]
  by (auto simp: edit_phone_def Record_inv_def split: prod.splits)

lemma keys_dict_set:
  "map fst (dict_set d k v) = (if k \<in> fst ` set d then map fst d else map fst d @ [k])"
proof (induction d)
  case Nil
  show ?case by simp
next
  case (Cons kv d)
  obtain k' v' where kv: "kv = (k', v')" by (cases kv)
  show ?case
  proof (cases "k' = k")
    case True
    then show ?thesis by (simp add: kv)
  next
    case False
    with Cons.IH show ?thesis by (simp add: kv)
  qed
qed

lemma set_dict_set: "set (dict_set d k v) \<subseteq> insert (k, v) (set d)"
  by (induction d) (auto split: if_splits)

lemma dict_set_entries:
  assumes "list_all P d" "P (k, v)"
  shows "list_all P (dict_set d k v)"
  using assms set_dict_set [of d k v] by (auto simp: list_all_iff)

lemma update_entries:
  assumes "list_all P d" "P kv"
  shows "list_all P (d[i := kv])"
  using assms set_update_subset_insert [of d i kv] by (auto simp: list_all_iff)

lemma book_inv_entries:
  "book_inv self =
     (distinct (map fst (data self))
      \<and> list_all (\<lambda>kv. fst kv = name (snd kv) \<and> Record_inv (snd kv)) (data self))"
  by (auto simp: book_inv_def keys_are_names_def values_of_def list_all_iff)

lemma set_record_at_book_inv:
  assumes "book_inv self" "i < length (data self)" "name r = name (record_at self i)"
    "Record_inv r"
  shows "book_inv (set_record_at self i r)"
proof -
  from assms(1,2) have k: "fst (data self ! i) = name (record_at self i)"
    by (auto simp: book_inv_entries list_all_length record_at_def)
  with assms(2) have "(map fst (data self))[i := name (record_at self i)] = map fst (data self)"
    by (metis list_update_id nth_map)
  with assms k show ?thesis
    by (simp add: book_inv_entries set_record_at_def map_update update_entries)
qed

lemma add_record_book_inv:
  assumes "book_inv self" "Record_inv r"
  shows "book_inv (add_record self r)"
proof (cases "lower (name r) \<in> set (map (\<lambda>e. lower (name e)) (values_of self))")
  case True
  show ?thesis
  proof (cases "index_of (lower (name r)) (data self)")
    case None
    with True assms show ?thesis by (simp add: add_record_def)
  next
    case (Some i)
    let ?e = "record_at self i"
    from index_of_Some [OF Some] have i: "i < length (data self)" by simp
    with assms(1) have "Record_inv ?e"
      by (auto simp: book_inv_entries list_all_length record_at_def)
    with assms(2) have "Record_inv (?e\<lparr>phones := phones ?e @ phones r\<rparr>)"
      by (simp add: Record_inv_def)
    from set_record_at_book_inv [OF assms(1) i _ this]
    show ?thesis using True Some by (simp add: add_record_def)
  qed
next
  case False
  then have "add_record self r = self\<lparr>data := dict_set (data self) (name r) r\<rparr>"
    by (simp add: add_record_def)
  with assms show ?thesis
    by (simp add: book_inv_entries keys_dict_set dict_set_entries)
qed

lemma delete_book_inv: "book_inv self \<Longrightarrow> book_inv (snd (delete self n))"
  by (auto simp: delete_def dict_del_def book_inv_entries distinct_map_filter list_all_iff
      split: option.splits)

lemma change_phone_book_inv:
  assumes "book_inv self"
  shows "book_inv (snd (change_phone self n old new))"
proof (cases "index_of (lower (lower n)) (data self)")
  case None
  with assms show ?thesis by (simp add: change_phone_def)
next
  case (Some i)
  let ?e = "record_at self i"
  from index_of_Some [OF Some] have i: "i < length (data self)" by simp
  with assms have "Record_inv ?e"
    by (auto simp: book_inv_entries list_all_length record_at_def)
  then have "Record_inv (snd (edit_phone ?e old new))" by (rule edit_phone_inv)
  from set_record_at_book_inv [OF assms i _ this]
  have "book_inv (set_record_at self i (snd (edit_phone ?e old new)))"
    by (simp add: edit_phone_name)
  moreover have "snd (change_phone self n old new)
          = set_record_at self i (snd (edit_phone ?e old new))"
    using Some by (simp add: change_phone_def split: prod.splits)
  ultimately show ?thesis by simp
qed

lemma build_dict_entries:
  "build_dict js d = Inr d' \<Longrightarrow> distinct (map fst d)
     \<Longrightarrow> list_all (\<lambda>kv. fst kv = name (snd kv) \<and> Record_inv (snd kv)) d
     \<Longrightarrow> distinct (map fst d')
         \<and> list_all (\<lambda>kv. fst kv = name (snd kv) \<and> Record_inv (snd kv)) d'"
proof (induction js arbitrary: d)
  case Nil
  then show ?case by simp
next
  case (Cons j js)
  from Cons.prems(1) obtain r
    where r: "Record_init (jname j) (jbirthday j) (jphones j) = Inr r"
      and b: "build_dict js (dict_set d (jname j) r) = Inr d'"
    by (auto split: sum.splits)
  from Cons.prems(2) have 1: "distinct (map fst (dict_set d (jname j) r))"
    by (simp add: keys_dict_set)
  from Cons.prems(3) Record_init_name [OF r] Record_init_inv [OF r]
  have 2: "list_all (\<lambda>kv. fst kv = name (snd kv) \<and> Record_inv (snd kv)) (dict_set d (jname j) r)"
    by (simp add: dict_set_entries)
  from Cons.IH [OF b 1 2] show ?case .
qed

lemma load_from_file_book_inv:
  assumes "book_inv self"
  shows "book_inv (snd (load_from_file self f fs))"
proof (cases "fs f")
  case None
  with assms show ?thesis by (simp add: load_from_file_def)
next
  case (Some content)
  show ?thesis
  proof (cases "build_dict content []")
    case (Inl e)
    with Some assms show ?thesis by (simp add: load_from_file_def)
  next
    case (Inr d)
    from build_dict_entries [OF Inr] Some Inr show ?thesis
      by (simp add: load_from_file_def book_inv_entries)
  qed
qed

lemma step_book_inv:
  assumes "book_inv (fst s)" "adds_valid op"
  shows "book_inv (fst (step s op))"
proof -
  obtain b fs where s: "s = (b, fs)" by (cases s)
  from assms show ?thesis
    unfolding s
    by (cases op)
       (simp_all add: adds_valid_def add_record_book_inv delete_book_inv change_phone_book_inv
          load_from_file_book_inv)
qed

text \<open>
  The hypotheses of the merge law and of the round trip hold of every book that the
  operations can build: starting from the new book, any run whose added records are as
  the constructors make them ends in a book that stores each record under its name, with
  valid phones and birthdays.
\<close>

lemma run_keeps_book_inv:
  "book_inv (fst s) \<Longrightarrow> list_all adds_valid ops \<Longrightarrow> book_inv (fst (run s ops))"
proof (induction ops arbitrary: s)
  case Nil
  then show ?case by simp
next
  case (Cons op ops)
  from Cons.prems have "book_inv (fst (step s op))" by (simp add: step_book_inv)
  with Cons.IH [of "step s op"] Cons.prems show ?case by simp
qed

lemma AddressBook_init_book_inv: "book_inv AddressBook_init"
  by (simp add: book_inv_def keys_are_names_def AddressBook_init_def values_of_def)

section \<open>Days to the birthday, on the birthday\<close>

lemma div_step:
  assumes "0 < (k::int)"
  shows "y div k - (y - 1) div k = (if y mod k = 0 then 1 else 0)"
proof -
  define q r where "q = y div k" and "r = y mod k"
  have y: "y = k * q + r" and r: "0 \<le> r" "r < k"
    using assms by (simp_all add: q_def r_def)
  show ?thesis
  proof (cases "r = 0")
    case True
    have e: "y - 1 = k * (q - 1) + (k - 1)" using y True by (simp add: algebra_simps)
    have "(y - 1) div k = q - 1" by (rule int_div_pos_eq [OF e]) (use assms in simp_all)
    with True show ?thesis by (simp add: q_def r_def)
  next
    case False
    have e: "y - 1 = k * q + (r - 1)" using y by simp
    have "(y - 1) div k = q" by (rule int_div_pos_eq [OF e]) (use r False in simp_all)
    with False show ?thesis by (simp add: q_def r_def)
  qed
qed

lemma mod_multiple:
  assumes "(c::int) dvd b" "y mod b = 0"
  shows "y mod c = 0"
  using mod_mod_cancel [OF assms(1), of y] assms(2) by simp

lemma days_before_year_step:
  "days_before_year (y + 1) - days_before_year y = (if is_leap y then 366 else 365)"
proof -
  have 4: "y div 4 - (y - 1) div 4 = (if y mod 4 = 0 then 1 else 0)"
    and 100: "y div 100 - (y - 1) div 100 = (if y mod 100 = 0 then 1 else 0)"
    and 400: "y div 400 - (y - 1) div 400 = (if y mod 400 = 0 then 1 else 0)"
    by (simp_all add: div_step)
  have a: "y mod 400 = 0 \<Longrightarrow> y mod 100 = 0" by (rule mod_multiple [of 100 400]) simp_all
  have b: "y mod 100 = 0 \<Longrightarrow> y mod 4 = 0" by (rule mod_multiple [of 4 100]) simp_all
  have "days_before_year (y + 1) - days_before_year y
          = 365 + (y div 4 - (y - 1) div 4) - (y div 100 - (y - 1) div 100)
              + (y div 400 - (y - 1) div 400)"
    by (simp add: days_before_year_def)
  also have "\<dots> = (if is_leap y then 366 else 365)"
    unfolding 4 100 400 is_leap_def using a b by (cases "y mod 4 = 0"; cases "y mod 100 = 0"; cases "y mod 400 = 0"; simp)
  finally show ?thesis .
qed

lemma days_before_month_step:
  "days_before_month (y + 1) m - days_before_month y m
     = (if 2 < m \<and> is_leap (y + 1) then 1 else 0) - (if 2 < m \<and> is_leap y then 1 else 0)"
  by (simp add: days_before_month_def)

lemma ymd2ord_step: "365 \<le> ymd2ord (y + 1) m d - ymd2ord y m d"
proof -
  have "ymd2ord (y + 1) m d - ymd2ord y m d
          = (days_before_year (y + 1) - days_before_year y)
            + (days_before_month (y + 1) m - days_before_month y m)"
    by (simp add: ymd2ord_def)
  then show ?thesis
    unfolding days_before_year_step days_before_month_step by (simp split: if_splits)
qed

lemma div_lower:
  assumes "- b \<le> (a::int)" "0 < b"
  shows "- 1 \<le> a div b"
proof -
  from assms have "(- b) div b \<le> a div b" by (intro zdiv_mono1)
  moreover have "(- b) div b = - 1"
    by (rule int_div_pos_eq [of _ _ _ 0]) (use assms(2) in simp_all)
  ultimately show ?thesis by simp
qed

lemma datetime_gt_midnight:
  assumes "0 \<le> hour t" "0 \<le> minute t" "0 \<le> second t" "0 \<le> microsecond t"
    and "0 < hour t \<or> 0 < minute t \<or> 0 < second t \<or> 0 < microsecond t"
  shows "datetime_gt t (midnight (year t) (month t) (day t))"
  using assms by (auto simp: datetime_gt_def datetime_fields_def midnight_def)

text \<open>
  In general: asked on the birthday's month and day at any time after midnight, in a
  year where the day exists this year and the next, \<^const>\<open>days_to_birthday\<close> takes next
  year's occurrence and returns at least 364, never 0.
\<close>

lemma days_to_birthday_on_birthday:
  assumes b: "birthday r = Some b"
    and md: "month (birthday_value b) = month today" "day (birthday_value b) = day today"
    and this_year: "real_date (year today) (month today) (day today)"
    and next_year: "real_date (year today + 1) (month today) (day today)"
    and h: "0 \<le> hour today" "hour today < 24"
    and mi: "0 \<le> minute today" "minute today < 60"
    and s: "0 \<le> second today" "second today < 60"
    and us: "0 \<le> microsecond today" "microsecond today < 1000000"
    and after: "0 < hour today \<or> 0 < minute today \<or> 0 < second today \<or> 0 < microsecond today"
  shows "\<exists>n. days_to_birthday r today = Inr (Some n) \<and> 364 \<le> n"
proof -
  let ?y = "year today" and ?m = "month today" and ?d = "day today"
  let ?next = "midnight (?y + 1) ?m ?d"
  have gt: "datetime_gt today (midnight ?y ?m ?d)"
    using h(1) mi(1) s(1) us(1) after by (rule datetime_gt_midnight)
  have res: "days_to_birthday r today = Inr (Some (days (datetime_sub ?next today)))"
    using b md gt
    by (simp add: days_to_birthday_def datetime_new_real [OF this_year]
        datetime_new_real [OF next_year])
  let ?secs = "second today + minute today * 60 + hour today * 3600"
  have u: "- 1 \<le> (- microsecond today) div 1000000"
    using us by (intro div_lower) simp_all
  have "- 86400 \<le> - ?secs + (- microsecond today) div 1000000"
    using h mi s u by linarith
  then have c: "- 1 \<le> (- ?secs + (- microsecond today) div 1000000) div 86400"
    by (intro div_lower) simp_all
  have o: "365 \<le> toordinal ?next - toordinal today"
    using ymd2ord_step [of ?y ?m ?d] by (simp add: toordinal_def midnight_def)
  have "days (datetime_sub ?next today)
          = (toordinal ?next - toordinal today)
            + (- ?secs + (- microsecond today) div 1000000) div 86400"
    by (simp add: datetime_sub_def timedelta_new_def Let_def midnight_def)
  with o c have "364 \<le> days (datetime_sub ?next today)" by linarith
  with res show ?thesis by simp
qed

end
